theory Spec2Isabelle
  imports Complex_Main "HOL-Library.Product_Lexorder"
begin

section \<open>The host's object graph\<close>

text \<open>
  The add-on is a sequence of reads, attribute assignments and operator calls on the
  object graph of its host application (windows, screens, areas, spaces, regions).
  Host objects live in a store and are named by references; Python's \<open>None\<close> is the
  reference \<open>None\<close>. An object is the partial map of the attributes it exposes.
  Floating-point attributes (colours, quaternion components, distances, timer
  intervals) are idealised as reals.
\<close>

type_synonym ref = nat

type_synonym quat = "real \<times> real \<times> real \<times> real"

datatype val =
    VBool bool
  | VStr string
  | VInt int
  | VReal real
  | VPair int int
  | VColor real real real
  | VQuat quat
  | VRef "ref option"
  | VRefs "ref list"

type_synonym obj = "string \<Rightarrow> val option"

type_synonym heap = "ref \<Rightarrow> obj option"

datatype exn = AttributeError | ReferenceError | TypeError | ValueError | HostError string

fun exn_str :: "exn \<Rightarrow> string" where
  "exn_str AttributeError = ''AttributeError''"
| "exn_str ReferenceError = ''ReferenceError''"
| "exn_str TypeError = ''TypeError''"
| "exn_str ValueError = ''ValueError''"
| "exn_str (HostError m) = m"

text \<open>
  What the add-on asks of the host. An operator of \<open>bpy.ops\<close> is called by name with
  keyword arguments, in the ambient context, inside a \<open>temp_override\<close> block, or with a
  legacy positional override dictionary.
\<close>

type_synonym kwargs = "(string \<times> val) list"

datatype opctx = Ambient | Temp kwargs | Legacy kwargs

datatype call =
    Op string opctx kwargs
  | OverrideEnter kwargs
  | OverrideExit kwargs
  | TagRedraw ref
  | TimerRegister string real
  | Import string

text \<open>
  The history of a run: every host call made, every attribute assigned and every
  message reported, in program order.
\<close>

datatype event = Call call | Write ref string val | Report string string

text \<open>
  The host itself is not part of the add-on. It is a parameter: \<open>run\<close> answers a call
  in a store with the exception raised, if any, and the store it leaves behind;
  \<open>quat_mul\<close> is the \<open>@\<close> operator of the host's quaternion type.
\<close>

record host =
  run :: "call \<Rightarrow> heap \<Rightarrow> exn option \<times> heap"
  quat_mul :: "quat \<Rightarrow> quat \<Rightarrow> quat"

section \<open>Computations that may throw\<close>

text \<open>
  A computation runs in a world (the store and the history so far) and returns a value
  or an exception, together with the world it leaves. A raised exception does not undo
  the effects that preceded it.
\<close>

type_synonym world = "heap \<times> event list"

type_synonym 'a comp = "world \<Rightarrow> (exn + 'a) \<times> world"

definition ret :: "'a \<Rightarrow> 'a comp" where
  "ret x = (\<lambda>w. (Inr x, w))"

definition throw :: "exn \<Rightarrow> 'a comp" where
  "throw e = (\<lambda>w. (Inl e, w))"

definition bind :: "'a comp \<Rightarrow> ('a \<Rightarrow> 'b comp) \<Rightarrow> 'b comp" where
  "bind m f = (\<lambda>w. case m w of (Inl e, w') \<Rightarrow> (Inl e, w') | (Inr x, w') \<Rightarrow> f x w')"

definition seq :: "unit comp \<Rightarrow> 'b comp \<Rightarrow> 'b comp" where
  "seq m n = bind m (\<lambda>_. n)"

text \<open>\<open>try: m except Exception as e: h e\<close>\<close>

definition try_except_as :: "'a comp \<Rightarrow> (exn \<Rightarrow> 'a comp) \<Rightarrow> 'a comp" where
  "try_except_as m h = (\<lambda>w. case m w of (Inl e, w') \<Rightarrow> h e w' | (Inr x, w') \<Rightarrow> (Inr x, w'))"

definition try_except :: "'a comp \<Rightarrow> 'a comp \<Rightarrow> 'a comp" where
  "try_except m h = try_except_as m (\<lambda>_. h)"

text \<open>\<open>try: m except Exception: pass\<close>\<close>

definition try_pass :: "unit comp \<Rightarrow> unit comp" where
  "try_pass m = try_except m (ret ())"

fun seqs :: "unit comp list \<Rightarrow> unit comp" where
  "seqs [] = ret ()"
| "seqs (m # ms) = seq m (seqs ms)"

fun mapM :: "('a \<Rightarrow> 'b comp) \<Rightarrow> 'a list \<Rightarrow> 'b list comp" where
  "mapM f [] = ret []"
| "mapM f (x # xs) = bind (f x) (\<lambda>y. bind (mapM f xs) (\<lambda>ys. ret (y # ys)))"

section \<open>Attribute access, assignment and host calls\<close>

text \<open>
  \<open>o.nm\<close>: reading an attribute of \<open>None\<close> or an attribute the object does not expose
  raises AttributeError; an object the host has freed raises ReferenceError.
\<close>

definition lookup :: "heap \<Rightarrow> ref option \<Rightarrow> string \<Rightarrow> exn + val" where
  "lookup hp ro nm =
     (case ro of
        None \<Rightarrow> Inl AttributeError
      | Some r \<Rightarrow>
          (case hp r of
             None \<Rightarrow> Inl ReferenceError
           | Some ob \<Rightarrow> (case ob nm of None \<Rightarrow> Inl AttributeError | Some v \<Rightarrow> Inr v)))"

definition getattr :: "ref option \<Rightarrow> string \<Rightarrow> val comp" where
  "getattr ro nm = (\<lambda>w. (lookup (fst w) ro nm, w))"

text \<open>\<open>getattr(o, nm, d)\<close>: the default replaces an AttributeError only.\<close>

definition getattr_default :: "ref option \<Rightarrow> string \<Rightarrow> val \<Rightarrow> val comp" where
  "getattr_default ro nm d =
     (\<lambda>w. case lookup (fst w) ro nm of
             Inl AttributeError \<Rightarrow> (Inr d, w)
           | Inl e \<Rightarrow> (Inl e, w)
           | Inr v \<Rightarrow> (Inr v, w))"

text \<open>
  Attributes are read at the type the host gives them; a value of another type raises
  TypeError (this cannot happen in a store typed as the host types it).
\<close>

definition as_ref :: "val \<Rightarrow> ref option comp" where
  "as_ref v = (case v of VRef ro \<Rightarrow> ret ro | _ \<Rightarrow> throw TypeError)"

definition as_refs :: "val \<Rightarrow> ref list comp" where
  "as_refs v = (case v of VRefs rs \<Rightarrow> ret rs | _ \<Rightarrow> throw TypeError)"

definition as_int :: "val \<Rightarrow> int comp" where
  "as_int v = (case v of VInt i \<Rightarrow> ret i | _ \<Rightarrow> throw TypeError)"

definition as_quat :: "val \<Rightarrow> quat comp" where
  "as_quat v = (case v of VQuat q \<Rightarrow> ret q | _ \<Rightarrow> throw TypeError)"

definition get_ref :: "ref option \<Rightarrow> string \<Rightarrow> ref option comp" where
  "get_ref ro nm = bind (getattr ro nm) as_ref"

definition get_refs :: "ref option \<Rightarrow> string \<Rightarrow> ref list comp" where
  "get_refs ro nm = bind (getattr ro nm) as_refs"

definition get_int :: "ref option \<Rightarrow> string \<Rightarrow> int comp" where
  "get_int ro nm = bind (getattr ro nm) as_int"

definition get_quat :: "ref option \<Rightarrow> string \<Rightarrow> quat comp" where
  "get_quat ro nm = bind (getattr ro nm) as_quat"

text \<open>
  \<open>o.nm = v\<close>: host objects have a fixed set of attributes, so assigning one the object
  does not expose raises AttributeError, as does assigning to \<open>None\<close>. A successful
  assignment updates the attribute and is recorded in the history.
\<close>

definition setattr :: "ref option \<Rightarrow> string \<Rightarrow> val \<Rightarrow> unit comp" where
  "setattr ro nm v =
     (\<lambda>w. case ro of
             None \<Rightarrow> (Inl AttributeError, w)
           | Some r \<Rightarrow>
               (case fst w r of
                  None \<Rightarrow> (Inl ReferenceError, w)
                | Some ob \<Rightarrow>
                    (case ob nm of
                       None \<Rightarrow> (Inl AttributeError, w)
                     | Some _ \<Rightarrow> (Inr (), ((fst w)(r \<mapsto> ob(nm \<mapsto> v)), snd w @ [Write r nm v])))))"

text \<open>A host call is recorded, then answered by the host.\<close>

definition call :: "host \<Rightarrow> call \<Rightarrow> unit comp" where
  "call h c =
     (\<lambda>w. case run h c (fst w) of
             (None, hp') \<Rightarrow> (Inr (), (hp', snd w @ [Call c]))
           | (Some e, hp') \<Rightarrow> (Inl e, (hp', snd w @ [Call c])))"

text \<open>\<open>self.report({level}, msg)\<close>\<close>

definition report :: "string \<Rightarrow> string \<Rightarrow> unit comp" where
  "report level msg = (\<lambda>w. (Inr (), (fst w, snd w @ [Report level msg])))"

text \<open>
  \<open>with temp_override(**kw): body\<close>: entering may throw; the block is left through the
  context manager's exit whether or not the body raised.
\<close>

definition with_override :: "host \<Rightarrow> kwargs \<Rightarrow> 'a comp \<Rightarrow> 'a comp" where
  "with_override h kw body =
     seq (call h (OverrideEnter kw))
       (\<lambda>w. case body w of
               (r, w') \<Rightarrow>
                 (case call h (OverrideExit kw) w' of
                    (Inl e, w'') \<Rightarrow> (Inl e, w'')
                  | (Inr _, w'') \<Rightarrow> (r, w'')))"

text \<open>\<open>next((x for x in xs if x.type == t), None)\<close>, and the loops of the same shape.\<close>

fun first_of_type :: "string \<Rightarrow> ref list \<Rightarrow> ref option comp" where
  "first_of_type t [] = ret None"
| "first_of_type t (r # rs) =
     bind (getattr (Some r) ''type'')
       (\<lambda>v. if v = VStr t then ret (Some r) else first_of_type t rs)"

definition window_region :: "ref option \<Rightarrow> ref option comp" where
  "window_region a = bind (get_refs a ''regions'') (first_of_type ''WINDOW'')"

text \<open>\<open>a.spaces.active\<close> and \<open>a.spaces.active.region_3d\<close>\<close>

definition active_space :: "ref \<Rightarrow> ref option comp" where
  "active_space a = bind (get_ref (Some a) ''spaces'') (\<lambda>sps. get_ref sps ''active'')"

definition region_3d :: "ref \<Rightarrow> ref option comp" where
  "region_3d a = bind (active_space a) (\<lambda>sp. get_ref sp ''region_3d'')"

section \<open>Helpers\<close>

text \<open>
  \<open>_find_window_view3d_area(win)\<close>: the first VIEW_3D area of the window's screen and
  that area's first WINDOW region. The whole search is inside one \<open>try\<close>; an exception
  leaves the variables as they were when it was raised.
\<close>

definition find_window_view3d_area :: "ref option \<Rightarrow> (ref option \<times> ref option) comp" where
  "find_window_view3d_area win =
     bind (try_except
             (bind (get_ref win ''screen'')
                (\<lambda>sc. bind (get_refs sc ''areas'') (first_of_type ''VIEW_3D'')))
             (ret None))
       (\<lambda>area_view3d.
          case area_view3d of
            None \<Rightarrow> ret (None, None)
          | Some a \<Rightarrow>
              bind (try_except (window_region (Some a)) (ret None))
                (\<lambda>region_window. ret (Some a, region_window)))"

text \<open>\<open>_override(win, area, region)\<close>: the dictionary of the arguments that are not \<open>None\<close>.\<close>

definition override :: "ref option \<Rightarrow> ref option \<Rightarrow> ref option \<Rightarrow> kwargs" where
  "override win area region =
     (if win \<noteq> None then [(''window'', VRef win)] else []) @
     (if area \<noteq> None then [(''area'', VRef area)] else []) @
     (if region \<noteq> None then [(''region'', VRef region)] else [])"

text \<open>The keyword arguments of \<open>temp_override(window=win, screen=screen, area=area, region=region)\<close>.\<close>

definition full_override :: "ref option \<Rightarrow> val \<Rightarrow> ref \<Rightarrow> ref \<Rightarrow> kwargs" where
  "full_override win screen area region =
     [(''window'', VRef win), (''screen'', screen),
      (''area'', VRef (Some area)), (''region'', VRef (Some region))]"

text \<open>
  \<open>_apply_view_axis(win, area, region, axis)\<close>: force ORTHO, apply the axis preset with
  the first operator variant that does not throw, then write the resulting rotation back.
\<close>

definition axis_in_override :: "host \<Rightarrow> kwargs \<Rightarrow> string \<Rightarrow> unit comp" where
  "axis_in_override h kw axis =
     try_except
       (call h (Op ''view3d.viewnumpad'' (Temp kw) [(''type'', VStr axis), (''align_active'', VBool False)]))
       (try_except
          (call h (Op ''view3d.view_axis'' (Temp kw) [(''type'', VStr axis), (''align_active'', VBool False)]))
          (call h (Op ''view3d.view_axis'' (Temp kw) [(''type'', VStr axis)])))"

definition axis_legacy :: "host \<Rightarrow> kwargs \<Rightarrow> string \<Rightarrow> unit comp" where
  "axis_legacy h ov axis =
     try_except
       (call h (Op ''view3d.viewnumpad'' (Legacy ov) [(''type'', VStr axis), (''align_active'', VBool False)]))
       (try_except
          (call h (Op ''view3d.view_axis'' (Legacy ov) [(''type'', VStr axis), (''align_active'', VBool False)]))
          (try_pass (call h (Op ''view3d.view_axis'' (Legacy ov) [(''type'', VStr axis)]))))"

definition force_ortho :: "ref \<Rightarrow> unit comp" where
  "force_ortho area =
     try_pass (bind (region_3d area) (\<lambda>r3d. setattr r3d ''view_perspective'' (VStr ''ORTHO'')))"

definition lock_rotation :: "ref \<Rightarrow> unit comp" where
  "lock_rotation area =
     try_pass
       (bind (region_3d area)
          (\<lambda>r3d. bind (get_quat r3d ''view_rotation'')
             (\<lambda>q. bind (region_3d area) (\<lambda>r3d'. setattr r3d' ''view_rotation'' (VQuat q)))))"

definition apply_view_axis :: "host \<Rightarrow> ref option \<Rightarrow> ref \<Rightarrow> ref \<Rightarrow> string \<Rightarrow> unit comp" where
  "apply_view_axis h win area region axis =
     seq (force_ortho area)
       (seq (try_except
               (bind (getattr_default win ''screen'' (VRef None))
                  (\<lambda>screen. with_override h (full_override win screen area region)
                     (axis_in_override h (full_override win screen area region) axis)))
               (axis_legacy h (override None (Some area) (Some region)) axis))
          (lock_rotation area))"

text \<open>
  \<open>_configure_silhouette_area(context, win, area, region, axis)\<close>. Only the read of
  \<open>area.spaces.active\<close> is outside a \<open>try\<close>.
\<close>

definition silhouette_styling :: "ref option \<Rightarrow> unit comp" where
  "silhouette_styling space =
     try_pass
       (bind (get_ref space ''shading'')
          (\<lambda>sh. seqs
             [setattr sh ''type'' (VStr ''SOLID''),
              setattr sh ''light'' (VStr ''FLAT''),
              setattr sh ''color_type'' (VStr ''SINGLE''),
              setattr sh ''single_color'' (VColor 0 0 0),
              setattr sh ''background_type'' (VStr ''VIEWPORT''),
              setattr sh ''background_color'' (VColor 1 1 1)]))"

definition hide_overlays :: "ref option \<Rightarrow> unit comp" where
  "hide_overlays space =
     bind (get_ref space ''overlay'') (\<lambda>ov. setattr ov ''show_overlays'' (VBool False))"

definition hide_ui_first :: "ref option \<Rightarrow> unit comp" where
  "hide_ui_first space =
     try_pass
       (seqs
          [setattr space ''show_region_header'' (VBool False),
           setattr space ''show_region_tool_header'' (VBool False),
           setattr space ''show_region_toolbar'' (VBool False),
           setattr space ''show_region_ui'' (VBool False),
           try_pass (setattr space ''show_region_hud'' (VBool False)),
           setattr space ''show_gizmo'' (VBool False),
           setattr space ''show_gizmo_navigate'' (VBool False),
           hide_overlays space])"

text \<open>The block of seven assignments that the source repeats to re-hide the interface.\<close>

definition hide_ui :: "ref option \<Rightarrow> unit comp" where
  "hide_ui space =
     seqs
       [setattr space ''show_region_header'' (VBool False),
        setattr space ''show_region_tool_header'' (VBool False),
        setattr space ''show_region_toolbar'' (VBool False),
        setattr space ''show_region_ui'' (VBool False),
        setattr space ''show_gizmo'' (VBool False),
        setattr space ''show_gizmo_navigate'' (VBool False),
        hide_overlays space]"

definition frame_selected :: "host \<Rightarrow> ref option \<Rightarrow> ref \<Rightarrow> ref \<Rightarrow> unit comp" where
  "frame_selected h win area region =
     try_pass
       (bind (getattr_default win ''screen'' (VRef None))
          (\<lambda>screen. with_override h (full_override win screen area region)
             (call h (Op ''view3d.view_selected'' (Temp (full_override win screen area region))
                        [(''use_all_regions'', VBool False)]))))"

definition configure_silhouette_area ::
    "host \<Rightarrow> ref option \<Rightarrow> ref \<Rightarrow> ref \<Rightarrow> string \<Rightarrow> unit comp" where
  "configure_silhouette_area h win area region axis =
     seq (try_pass (setattr (Some area) ''type'' (VStr ''VIEW_3D'')))
       (seq (try_pass (setattr (Some area) ''ui_type'' (VStr ''VIEW_3D'')))
          (bind (active_space area)
             (\<lambda>space. seqs
                [silhouette_styling space,
                 hide_ui_first space,
                 apply_view_axis h win area region axis,
                 frame_selected h win area region,
                 apply_view_axis h win area region axis,
                 try_pass (seq (hide_ui space) (try_pass (call h (TagRedraw area))))])))"

section \<open>Python arithmetic and sequence functions\<close>

text \<open>
  \<open>int(x)\<close> of a float truncates toward zero. For an integer \<open>n\<close> of magnitude below
  \<open>2^53\<close> the float products \<open>n * 0.25\<close> and \<open>n * 0.5\<close> are exact, so they are the real
  products on that range.
\<close>

definition py_int :: "real \<Rightarrow> int" where
  "py_int r = (if 0 \<le> r then \<lfloor>r\<rfloor> else \<lceil>r\<rceil>)"

text \<open>\<open>max(xs, key=k)\<close> on a non-empty list of keyed elements: the first element of greatest key.\<close>

fun max_by_key :: "int \<times> 'a \<Rightarrow> (int \<times> 'a) list \<Rightarrow> 'a" where
  "max_by_key best [] = snd best"
| "max_by_key best (x # xs) = max_by_key (if fst best < fst x then x else best) xs"

text \<open>\<open>sorted(xs, key=k)\<close> is stable, as is \<^const>\<open>sort_key\<close>; the keys are computed beforehand.\<close>

definition sorted_by :: "('k::linorder \<times> 'a) list \<Rightarrow> 'a list" where
  "sorted_by keyed = map snd (sort_key fst keyed)"

text \<open>\<open>sorted(xs, key=k, reverse=True)\<close> for integer keys: descending and still stable.\<close>

definition sorted_by_desc :: "(int \<times> 'a) list \<Rightarrow> 'a list" where
  "sorted_by_desc keyed = map snd (sort_key (\<lambda>p. - fst p) keyed)"

text \<open>\<open>[a for a in xs if a.type == t]\<close>\<close>

fun filter_type :: "string \<Rightarrow> ref list \<Rightarrow> ref list comp" where
  "filter_type t [] = ret []"
| "filter_type t (a # rest0) =
     bind (getattr (Some a) ''type'')
       (\<lambda>v. bind (filter_type t rest0) (\<lambda>rest. ret (if v = VStr t then a # rest else rest)))"

text \<open>\<open>[a for a in after if a not in before]\<close>; host objects are equal when they are the same object.\<close>

definition not_in :: "ref list \<Rightarrow> ref list \<Rightarrow> ref list" where
  "not_in after before = filter (\<lambda>a. a \<notin> set before) after"

section \<open>Operator \<open>view3d.open_silhouette_view_dual\<close>\<close>

datatype status = FINISHED | CANCELLED

text \<open>\<open>bpy.context\<close>, the host's global context object.\<close>

definition bpy_context :: ref where
  "bpy_context = 0"

text \<open>\<open>context.view_layer.objects.active is not None\<close>\<close>

definition has_active_object :: "ref \<Rightarrow> bool comp" where
  "has_active_object context =
     bind (get_ref (Some context) ''view_layer'')
       (\<lambda>vl. bind (get_ref vl ''objects'')
          (\<lambda>objs. bind (getattr objs ''active'') (\<lambda>v. ret (v \<noteq> VRef None))))"

definition dual_poll :: "ref \<Rightarrow> bool comp" where
  "dual_poll context =
     bind (getattr (Some context) ''mode'')
       (\<lambda>m. if m = VStr ''OBJECT'' then has_active_object context else ret False)"

text \<open>\<open>bpy.ops.wm.window_new()\<close>\<close>

definition window_new :: call where
  "window_new = Op ''wm.window_new'' Ambient []"

text \<open>\<open>getattr(o, nm, d)\<close> of an integer attribute with an integer default.\<close>

definition get_int_default :: "ref option \<Rightarrow> string \<Rightarrow> int \<Rightarrow> int comp" where
  "get_int_default ro nm d = bind (getattr_default ro nm (VInt d)) as_int"

text \<open>Lines 228--238: size and place the new window; one \<open>try\<close> around all of it.\<close>

definition size_new_window :: "ref option \<Rightarrow> ref option \<Rightarrow> unit comp" where
  "size_new_window orig_win new_win =
     try_pass
       (bind (get_int_default orig_win ''width'' 1600)
          (\<lambda>ow. bind (get_int_default orig_win ''height'' 900)
             (\<lambda>oh.
                let target_w = max 480 (py_int (real_of_int ow * 0.25));
                    target_h = max 360 (py_int (real_of_int oh * 0.25))
                in seqs
                  [setattr new_win ''width'' (VInt target_w),
                   setattr new_win ''height'' (VInt target_h),
                   bind (get_int_default orig_win ''x'' 100)
                     (\<lambda>x. setattr new_win ''x'' (VInt (x + 80))),
                   bind (get_int_default orig_win ''y'' 100)
                     (\<lambda>y. setattr new_win ''y'' (VInt (y - 80))),
                   bind (get_ref new_win ''screen'')
                     (\<lambda>sc. setattr sc ''show_statusbar'' (VBool False))])))"

definition hide_statusbar :: "ref option \<Rightarrow> unit comp" where
  "hide_statusbar new_win =
     try_pass (bind (get_ref new_win ''screen'') (\<lambda>sc. setattr sc ''show_statusbar'' (VBool False)))"

text \<open>\<open>list(screen.areas) if screen else []\<close>\<close>

definition areas_if :: "val \<Rightarrow> ref list comp" where
  "areas_if screen =
     bind (as_ref screen) (\<lambda>sc. if sc \<noteq> None then get_refs sc ''areas'' else ret [])"

text \<open>\<open>screen = getattr(new_win, 'screen', None)\<close> followed by that list.\<close>

definition window_areas :: "ref option \<Rightarrow> ref list comp" where
  "window_areas new_win = bind (getattr_default new_win ''screen'' (VRef None)) areas_if"

definition dual_override :: "ref option \<Rightarrow> ref \<Rightarrow> ref \<Rightarrow> kwargs" where
  "dual_override new_win area_a region_a =
     [(''window'', VRef new_win), (''area'', VRef (Some area_a)), (''region'', VRef (Some region_a))]"

text \<open>
  Lines 256--270: split the area horizontally, by factor and, if that raises, by a
  cursor position. The result is \<open>ok\<close>; False stands for the \<open>return 0.05\<close> of the
  inner handler.
\<close>

definition deferred_split :: "host \<Rightarrow> ref option \<Rightarrow> ref \<Rightarrow> ref \<Rightarrow> bool comp" where
  "deferred_split h new_win area_a region_a =
     try_except
       (seq (with_override h (dual_override new_win area_a region_a)
               (call h (Op ''screen.area_split'' (Temp (dual_override new_win area_a region_a))
                          [(''direction'', VStr ''HORIZONTAL''), (''factor'', VReal 0.5)])))
          (ret True))
       (try_except
          (bind (get_int (Some area_a) ''y'')
             (\<lambda>y. bind (get_int (Some area_a) ''height'')
                (\<lambda>ht.
                   let cy = y + max 1 (py_int (real_of_int ht * 0.5))
                   in seq (with_override h (dual_override new_win area_a region_a)
                             (bind (get_int (Some area_a) ''x'')
                                (\<lambda>x. call h (Op ''screen.area_split''
                                          (Temp (dual_override new_win area_a region_a))
                                          [(''direction'', VStr ''HORIZONTAL''),
                                           (''cursor'', VPair (x + 5) cy)]))))
                        (ret True))))
          (ret False))"

text \<open>\<open>float(getattr(r, 'view_distance', 5.0)) or 5.0\<close>\<close>

definition as_float :: "val \<Rightarrow> real comp" where
  "as_float v = (case v of VReal r \<Rightarrow> ret r | VInt i \<Rightarrow> ret (real_of_int i) | _ \<Rightarrow> throw TypeError)"

definition distance_backoff :: "ref \<Rightarrow> ref \<Rightarrow> unit comp" where
  "distance_backoff area_top area_bottom =
     try_pass
       (bind (region_3d area_top)
          (\<lambda>r3d_top. bind (region_3d area_bottom)
             (\<lambda>r3d_bot. bind (bind (getattr_default r3d_top ''view_distance'' (VReal 5.0)) as_float)
                (\<lambda>d. let dist = (if d = 0 then 5.0 else d) * 1.3
                      in seq (setattr r3d_top ''view_distance'' (VReal dist))
                           (setattr r3d_bot ''view_distance'' (VReal dist))))))"

text \<open>Lines 285--312: configure the two areas, once they and their regions are known.\<close>

definition configure_pair :: "host \<Rightarrow> ref option \<Rightarrow> ref \<Rightarrow> ref \<Rightarrow> ref \<Rightarrow> ref \<Rightarrow> unit comp" where
  "configure_pair h win area_top reg_top area_bottom reg_bottom =
     seqs
       [configure_silhouette_area h win area_top reg_top ''FRONT'',
        configure_silhouette_area h win area_bottom reg_bottom ''RIGHT'',
        apply_view_axis h win area_top reg_top ''FRONT'',
        apply_view_axis h win area_bottom reg_bottom ''RIGHT'']"

definition deferred_finish :: "host \<Rightarrow> ref option \<Rightarrow> ref \<Rightarrow> ref \<Rightarrow> ref \<Rightarrow> ref \<Rightarrow> unit comp" where
  "deferred_finish h new_win area_top reg_top area_bottom reg_bottom =
     seqs
       [configure_pair h new_win area_top reg_top area_bottom reg_bottom,
        try_pass (bind (active_space area_top) hide_ui),
        try_pass (bind (active_space area_bottom) hide_ui),
        distance_backoff area_top area_bottom]"

text \<open>
  The body of the \<open>try\<close> of \<open>_deferred_setup\<close> (lines 250--314). The timer callback
  returns \<open>Some 0.05\<close> to be called again after that delay and \<open>None\<close> to stop.
\<close>

definition deferred_setup_body :: "host \<Rightarrow> ref option \<Rightarrow> real option comp" where
  "deferred_setup_body h new_win =
     bind (find_window_view3d_area new_win)
       (\<lambda>found. case found of
          (Some area_a, Some region_a) \<Rightarrow>
            bind (window_areas new_win)
              (\<lambda>before. bind (deferred_split h new_win area_a region_a)
                 (\<lambda>ok. if \<not> ok then ret (Some 0.05)
                    else bind (window_areas new_win)
                      (\<lambda>after.
                         case not_in after before of
                           [] \<Rightarrow> ret (Some 0.05)
                         | new_area # _ \<Rightarrow>
                             bind (get_int (Some area_a) ''y'')
                               (\<lambda>ya. bind (get_int (Some new_area) ''y'')
                                  (\<lambda>yn.
                                     let area_top = (if yn \<le> ya then area_a else new_area);
                                         area_bottom = (if yn \<le> ya then new_area else area_a)
                                     in bind (window_region (Some area_top))
                                          (\<lambda>rt. bind (window_region (Some area_bottom))
                                             (\<lambda>rb. case (rt, rb) of
                                                (Some reg_top, Some reg_bottom) \<Rightarrow>
                                                  seq (deferred_finish h new_win area_top reg_top
                                                         area_bottom reg_bottom)
                                                    (ret None)
                                              | _ \<Rightarrow> ret (Some 0.05))))))))
        | _ \<Rightarrow> ret (Some 0.05))"

definition deferred_setup :: "host \<Rightarrow> ref option \<Rightarrow> real option comp" where
  "deferred_setup h new_win = try_except (deferred_setup_body h new_win) (ret None)"

text \<open>
  \<open>execute\<close>: open the window, size it, and register \<open>_deferred_setup\<close> as a timer. The
  callback closes over \<open>new_win\<close>, which \<open>execute\<close> therefore returns beside its status.
\<close>

text \<open>Lines 226--322, once the window has been opened.\<close>

definition after_window :: "host \<Rightarrow> ref option \<Rightarrow> ref option \<Rightarrow> (status \<times> ref option) comp" where
  "after_window h orig_win new_win =
     seq (size_new_window orig_win new_win)
       (seq (hide_statusbar new_win)
          (seq (try_pass (call h (TimerRegister ''_deferred_setup'' 0.05)))
             (ret (FINISHED, new_win))))"

definition dual_execute :: "host \<Rightarrow> ref \<Rightarrow> (status \<times> ref option) comp" where
  "dual_execute h context =
     bind (get_ref (Some context) ''window'')
       (\<lambda>orig_win.
          bind (try_except_as (seq (call h window_new) (ret True))
                  (\<lambda>e. seq (report ''ERROR'' (''Failed to open new window: '' @ exn_str e)) (ret False)))
            (\<lambda>opened.
               if \<not> opened then ret (CANCELLED, None)
               else bind (get_ref (Some bpy_context) ''window'') (after_window h orig_win)))"

section \<open>Operator \<open>view3d.open_silhouette_split_current\<close>\<close>

definition split_poll :: "ref \<Rightarrow> bool comp" where
  "split_poll context =
     bind (getattr (Some context) ''mode'')
       (\<lambda>m. if m \<noteq> VStr ''OBJECT'' then ret False
          else bind (getattr (Some context) ''area'')
            (\<lambda>a. if a = VRef None then ret False
               else bind (bind (getattr (Some context) ''area'') as_ref)
                 (\<lambda>a'. bind (getattr a' ''type'')
                    (\<lambda>t. if t \<noteq> VStr ''VIEW_3D'' then ret False
                       else has_active_object context))))"

text \<open>\<open>[(a.x, a) for a in xs]\<close>: the keys read in list order.\<close>

definition keyed_by_x :: "ref list \<Rightarrow> (int \<times> ref) list comp" where
  "keyed_by_x xs = mapM (\<lambda>a. bind (get_int (Some a) ''x'') (\<lambda>k. ret (k, a))) xs"

definition keyed_by_y :: "ref list \<Rightarrow> (int \<times> ref) list comp" where
  "keyed_by_y xs = mapM (\<lambda>a. bind (get_int (Some a) ''y'') (\<lambda>k. ret (k, a))) xs"

text \<open>The key \<open>(abs(a.x - area_left.x), -a.y)\<close> of line 399.\<close>

definition keyed_by_proximity :: "ref \<Rightarrow> ref list \<Rightarrow> ((int \<times> int) \<times> ref) list comp" where
  "keyed_by_proximity area_left xs =
     mapM (\<lambda>a. bind (get_int (Some a) ''x'')
                  (\<lambda>ax. bind (get_int (Some area_left) ''x'')
                     (\<lambda>lx. bind (get_int (Some a) ''y'')
                        (\<lambda>ay. ret ((abs (ax - lx), - ay), a))))) xs"

text \<open>
  Lines 354--363: split the current area vertically, by factor and, if that raises, by
  a cursor position. False stands for the handler's report and \<open>CANCELLED\<close>.
\<close>

definition split_vertical :: "host \<Rightarrow> ref \<Rightarrow> bool comp" where
  "split_vertical h area =
     try_except
       (seq (call h (Op ''screen.area_split'' Ambient
                       [(''direction'', VStr ''VERTICAL''), (''factor'', VReal 0.5)]))
          (ret True))
       (try_except_as
          (bind (get_int (Some area) ''x'')
             (\<lambda>x. bind (get_int (Some area) ''width'')
                (\<lambda>wd. bind (get_int (Some area) ''y'')
                   (\<lambda>y. bind (get_int (Some area) ''height'')
                      (\<lambda>ht.
                         let cx = x + max 1 (py_int (real_of_int wd * 0.5));
                             cy = y + max 1 (py_int (real_of_int ht * 0.5))
                         in seq (call h (Op ''screen.area_split'' Ambient
                                           [(''direction'', VStr ''VERTICAL''),
                                            (''cursor'', VPair cx cy)]))
                              (ret True))))))
          (\<lambda>e. seq (report ''ERROR'' (''Failed to split current area: '' @ exn_str e))
                 (ret False)))"

text \<open>Lines 370--375: the left and the right area, by \<open>x\<close>.\<close>

definition pick_left_right :: "ref \<Rightarrow> ref list \<Rightarrow> (ref \<times> ref) comp" where
  "pick_left_right area new_areas =
     bind (keyed_by_x new_areas)
       (\<lambda>keyed.
          let area_right = max_by_key (hd keyed) (tl keyed)
          in bind (get_int (Some area) ''x'')
               (\<lambda>ax. bind (get_int (Some area_right) ''x'')
                  (\<lambda>rx.
                     let area_left = (if ax \<le> rx then area else area_right)
                     in if area_right = area_left
                        then bind (keyed_by_x (area # new_areas))
                               (\<lambda>keyed'. let sorted_by_x = sorted_by keyed'
                                          in ret (hd sorted_by_x, last sorted_by_x))
                        else ret (area_left, area_right))))"

text \<open>
  Lines 380--392: split the left area horizontally inside an override on its first
  WINDOW region. False stands for the handler's report and \<open>CANCELLED\<close>.
\<close>

definition left_override :: "ref \<Rightarrow> ref \<Rightarrow> kwargs" where
  "left_override area_left r = [(''area'', VRef (Some area_left)), (''region'', VRef (Some r))]"

definition split_in_left :: "host \<Rightarrow> ref \<Rightarrow> ref \<Rightarrow> unit comp" where
  "split_in_left h area_left r =
     with_override h (left_override area_left r)
       (try_except
          (call h (Op ''screen.area_split'' (Temp (left_override area_left r))
                     [(''direction'', VStr ''HORIZONTAL''), (''factor'', VReal 0.5)]))
          (bind (get_int (Some area_left) ''y'')
             (\<lambda>y. bind (get_int (Some area_left) ''height'')
                (\<lambda>ht.
                   let cy = y + max 1 (py_int (real_of_int ht * 0.5))
                   in bind (get_int (Some area_left) ''x'')
                        (\<lambda>x. call h (Op ''screen.area_split'' (Temp (left_override area_left r))
                                  [(''direction'', VStr ''HORIZONTAL''),
                                   (''cursor'', VPair (x + 5) cy)]))))))"

fun split_left_loop :: "host \<Rightarrow> ref \<Rightarrow> ref list \<Rightarrow> unit comp" where
  "split_left_loop h area_left [] = ret ()"
| "split_left_loop h area_left (r # rs) =
     bind (getattr (Some r) ''type'')
       (\<lambda>t. if t = VStr ''WINDOW'' then split_in_left h area_left r
             else split_left_loop h area_left rs)"

definition split_left :: "host \<Rightarrow> ref \<Rightarrow> bool comp" where
  "split_left h area_left =
     try_except_as
       (seq (bind (get_refs (Some area_left) ''regions'') (split_left_loop h area_left))
          (ret True))
       (\<lambda>e. seq (report ''ERROR'' (''Failed to split left area: '' @ exn_str e)) (ret False))"

text \<open>Lines 399--404: the two VIEW_3D areas nearest in \<open>x\<close> to the left area, the higher first.\<close>

definition pick_left_subs :: "ref \<Rightarrow> ref list \<Rightarrow> ref list comp" where
  "pick_left_subs area_left new_areas2 =
     bind (filter_type ''VIEW_3D'' (new_areas2 @ [area_left]))
       (\<lambda>cands. bind (keyed_by_proximity area_left cands)
          (\<lambda>keyed. ret (take 2 (sorted_by keyed))))"

definition order_top_bottom :: "ref list \<Rightarrow> ref list comp" where
  "order_top_bottom left_subs = bind (keyed_by_y left_subs) (\<lambda>keyed. ret (sorted_by_desc keyed))"

definition cancel :: "string \<Rightarrow> (status \<times> 'a option) comp" where
  "cancel msg = seq (report ''ERROR'' msg) (ret (CANCELLED, None))"

text \<open>
  \<open>execute\<close>. The timer callback \<open>_post_fix\<close> closes over the window, the two areas and
  their regions, which \<open>execute\<close> therefore returns beside \<open>FINISHED\<close>.
\<close>

type_synonym captured = "ref option \<times> ref \<times> ref \<times> ref \<times> ref"

definition split_configure ::
    "host \<Rightarrow> ref option \<Rightarrow> ref \<Rightarrow> ref \<Rightarrow> (status \<times> captured option) comp" where
  "split_configure h win left_top left_bottom =
     bind (window_region (Some left_top))
       (\<lambda>rt. bind (window_region (Some left_bottom))
          (\<lambda>rb. case (rt, rb) of
             (Some reg_top, Some reg_bottom) \<Rightarrow>
               seq (configure_pair h win left_top reg_top left_bottom reg_bottom)
                 (seq (try_pass (call h (TimerRegister ''_post_fix'' 0.05)))
                    (ret (FINISHED, Some (win, left_top, reg_top, left_bottom, reg_bottom))))
           | _ \<Rightarrow> cancel ''Could not get WINDOW regions for left sub-areas.''))"

definition split_after_vertical ::
    "host \<Rightarrow> ref option \<Rightarrow> ref option \<Rightarrow> ref \<Rightarrow> ref list \<Rightarrow> (status \<times> captured option) comp" where
  "split_after_vertical h win scr area before =
     bind (get_refs scr ''areas'')
       (\<lambda>after.
          let new_areas = not_in after before
          in if new_areas = [] then cancel ''Could not determine new split area.''
             else bind (pick_left_right area new_areas)
               (\<lambda>(area_left, area_right).
                  bind (get_refs scr ''areas'')
                    (\<lambda>before2. bind (split_left h area_left)
                       (\<lambda>ok2. if \<not> ok2 then ret (CANCELLED, None)
                          else bind (get_refs scr ''areas'')
                            (\<lambda>after2.
                               let new_areas2 = not_in after2 before2
                               in if new_areas2 = []
                                  then cancel ''Could not determine sub-areas of left split.''
                                  else bind (pick_left_subs area_left new_areas2)
                                    (\<lambda>left_subs.
                                       if length left_subs < 2
                                       then cancel ''Left split did not produce two VIEW_3D areas.''
                                       else bind (order_top_bottom left_subs)
                                         (\<lambda>tb. case tb of
                                            [left_top, left_bottom] \<Rightarrow>
                                              split_configure h win left_top left_bottom
                                          | _ \<Rightarrow> throw ValueError)))))))"

definition split_execute :: "host \<Rightarrow> ref \<Rightarrow> (status \<times> captured option) comp" where
  "split_execute h context =
     bind (get_ref (Some context) ''area'')
       (\<lambda>area_o. bind (window_region area_o)
          (\<lambda>region.
             if region = None then cancel ''No WINDOW region in current area.''
             else case area_o of
               None \<Rightarrow> throw AttributeError
             | Some area \<Rightarrow>
                 bind (get_ref (Some context) ''window'')
                   (\<lambda>win. bind (get_ref (Some context) ''screen'')
                      (\<lambda>scr. bind (get_refs scr ''areas'')
                         (\<lambda>before. bind (getattr (Some area) ''x'')
                            (\<lambda>orig_x. bind (split_vertical h area)
                               (\<lambda>ok. if \<not> ok then ret (CANCELLED, None)
                                  else split_after_vertical h win scr area before)))))))"

text \<open>
  \<open>_post_fix\<close>: re-apply both axes; if the two rotations then agree in every component
  to within \<open>1e-5\<close>, turn the bottom view by \<open>z90\<close>; re-hide the interface. All of it is
  inside one \<open>try\<close>, and the callback returns \<open>None\<close> whatever happened.
\<close>

definition z90 :: quat where
  "z90 = (0.70710678, 0, 0, 0.70710678)"

definition same_rotation :: "quat \<Rightarrow> quat \<Rightarrow> bool" where
  "same_rotation qt qb =
     (case (qt, qb) of
        ((a0, a1, a2, a3), (b0, b1, b2, b3)) \<Rightarrow>
          abs (a0 - b0) < 1 / 100000 \<and> abs (a1 - b1) < 1 / 100000 \<and>
          abs (a2 - b2) < 1 / 100000 \<and> abs (a3 - b3) < 1 / 100000)"

definition view_rotation_of :: "ref \<Rightarrow> quat comp" where
  "view_rotation_of area = bind (region_3d area) (\<lambda>r3d. get_quat r3d ''view_rotation'')"

definition fix_identical :: "host \<Rightarrow> ref \<Rightarrow> ref \<Rightarrow> unit comp" where
  "fix_identical h left_top left_bottom =
     try_pass
       (seq (call h (Import ''mathutils''))
          (bind (view_rotation_of left_top)
             (\<lambda>qt. bind (view_rotation_of left_bottom)
                (\<lambda>qb. if same_rotation qt qb
                   then seq (bind (region_3d left_bottom)
                               (\<lambda>r3d. setattr r3d ''view_rotation'' (VQuat (quat_mul h z90 qt))))
                          (bind (region_3d left_bottom)
                             (\<lambda>r3d. setattr r3d ''view_perspective'' (VStr ''ORTHO'')))
                   else ret ()))))"

definition post_fix :: "host \<Rightarrow> captured \<Rightarrow> real option comp" where
  "post_fix h cap =
     (case cap of
        (win, left_top, reg_top, left_bottom, reg_bottom) \<Rightarrow>
          seq (try_pass
                 (seqs
                    [apply_view_axis h win left_top reg_top ''FRONT'',
                     apply_view_axis h win left_bottom reg_bottom ''RIGHT'',
                     fix_identical h left_top left_bottom,
                     bind (active_space left_top) hide_ui,
                     bind (active_space left_bottom) hide_ui]))
            (ret None))"

section \<open>Menu\<close>

text \<open>
  \<open>VIEW3D_MT_silhouette_menu.draw\<close>: the entries added to the menu's layout, as pairs of
  operator identifier and label, in order.
\<close>

definition dual_idname :: string where
  "dual_idname = ''view3d.open_silhouette_view_dual''"

definition split_idname :: string where
  "split_idname = ''view3d.open_silhouette_split_current''"

definition silhouette_menu_draw :: "(string \<times> string) list" where
  "silhouette_menu_draw =
     [(split_idname, ''Split Here (Front+Right)''),
      (dual_idname, ''New Window (Front+Right)'')]"

section \<open>Concrete hosts and stores\<close>

text \<open>
  A small store for concrete runs: the context (object 0), two windows with a screen
  each, five 3D-view areas, and a context without a window (object 8). An area at reference \<open>b\<close> owns the objects \<open>b\<close> to
  \<open>b + 6\<close>: the area, its WINDOW region, its space collection, the active space, and
  the space's shading, overlay and 3D region.
\<close>

definition area_objs :: "ref \<Rightarrow> ref \<Rightarrow> int \<Rightarrow> int \<Rightarrow> quat \<Rightarrow> (ref \<times> obj) list" where
  "area_objs b scr x y q =
     [(b, map_of [(''type'', VStr ''VIEW_3D''), (''ui_type'', VStr ''VIEW_3D''),
                  (''x'', VInt x), (''y'', VInt y), (''width'', VInt 800), (''height'', VInt 600),
                  (''regions'', VRefs [b + 1]), (''spaces'', VRef (Some (b + 2))),
                  (''id_data'', VRef (Some scr))]),
      (b + 1, map_of [(''type'', VStr ''WINDOW'')]),
      (b + 2, map_of [(''active'', VRef (Some (b + 3)))]),
      (b + 3, map_of [(''shading'', VRef (Some (b + 4))), (''overlay'', VRef (Some (b + 5))),
                      (''region_3d'', VRef (Some (b + 6))),
                      (''show_region_header'', VBool True), (''show_region_tool_header'', VBool True),
                      (''show_region_toolbar'', VBool True), (''show_region_ui'', VBool True),
                      (''show_gizmo'', VBool True), (''show_gizmo_navigate'', VBool True)]),
      (b + 4, map_of [(''type'', VStr ''WIREFRAME''), (''light'', VStr ''STUDIO''),
                      (''color_type'', VStr ''MATERIAL''), (''single_color'', VColor 1 1 1),
                      (''background_type'', VStr ''THEME''), (''background_color'', VColor 0 0 0)]),
      (b + 5, map_of [(''show_overlays'', VBool True)]),
      (b + 6, map_of [(''view_perspective'', VStr ''PERSP''), (''view_rotation'', VQuat q),
                      (''view_distance'', VReal 10)])]"

definition sim_objs :: "(ref \<times> obj) list" where
  "sim_objs =
     [(0, map_of [(''mode'', VStr ''OBJECT''), (''window'', VRef (Some 1)), (''screen'', VRef (Some 3)),
                  (''area'', VRef (Some 10)), (''view_layer'', VRef (Some 5))]),
      (1, map_of [(''width'', VInt 2560), (''height'', VInt 1600), (''x'', VInt 40), (''y'', VInt 90),
                  (''screen'', VRef (Some 3))]),
      (2, map_of [(''width'', VInt 1280), (''height'', VInt 720), (''x'', VInt 0), (''y'', VInt 0),
                  (''screen'', VRef (Some 4))]),
      (3, map_of [(''areas'', VRefs [10]), (''show_statusbar'', VBool True)]),
      (4, map_of [(''areas'', VRefs [40]), (''show_statusbar'', VBool True)]),
      (5, map_of [(''objects'', VRef (Some 6))]),
      (6, map_of [(''active'', VRef (Some 7))]),
      (7, map_of []),
      (8, map_of [(''window'', VRef None)])]
     @ area_objs 10 3 0 0 (1, 0, 0, 0)
     @ area_objs 20 3 960 0 (1, 0, 0, 0)
     @ area_objs 30 3 0 500 (1, 0, 0, 0)
     @ area_objs 40 4 0 0 (1, 0, 0, 0)
     @ area_objs 50 4 0 180 (1, 0, 0, 0)"

definition sim_heap :: heap where
  "sim_heap = map_of sim_objs"

text \<open>
  A simulated host. \<open>wm.window_new\<close> makes window 2 the context's window;
  \<open>screen.area_split\<close> adds to the screen of the area it is called on the area that
  follows the screen's last one; every other call does nothing. No call raises.
\<close>

definition sim_target :: "heap \<Rightarrow> opctx \<Rightarrow> ref option" where
  "sim_target hp ctx =
     (case ctx of
        Ambient \<Rightarrow> (case lookup hp (Some 0) ''area'' of Inr (VRef a) \<Rightarrow> a | _ \<Rightarrow> None)
      | Temp kw \<Rightarrow> (case map_of kw ''area'' of Some (VRef a) \<Rightarrow> a | _ \<Rightarrow> None)
      | Legacy kw \<Rightarrow> (case map_of kw ''area'' of Some (VRef a) \<Rightarrow> a | _ \<Rightarrow> None))"

definition sim_split :: "heap \<Rightarrow> opctx \<Rightarrow> heap" where
  "sim_split hp ctx =
     (case lookup hp (sim_target hp ctx) ''id_data'' of
        Inr (VRef (Some scr)) \<Rightarrow>
          (case (hp scr, lookup hp (Some scr) ''areas'') of
             (Some ob, Inr (VRefs ars)) \<Rightarrow>
               (if ars \<noteq> [] \<and> hp (last ars + 10) \<noteq> None
                then hp(scr \<mapsto> ob(''areas'' \<mapsto> VRefs (ars @ [last ars + 10])))
                else hp)
           | _ \<Rightarrow> hp)
      | _ \<Rightarrow> hp)"

definition sim_run :: "call \<Rightarrow> heap \<Rightarrow> exn option \<times> heap" where
  "sim_run c hp =
     (case c of
        Op nm ctx kw \<Rightarrow>
          (if nm = ''wm.window_new''
           then (case hp 0 of
                   Some ob \<Rightarrow> (None, hp(0 \<mapsto> ob(''window'' \<mapsto> VRef (Some 2))))
                 | None \<Rightarrow> (None, hp))
           else if nm = ''screen.area_split'' then (None, sim_split hp ctx)
           else (None, hp))
      | _ \<Rightarrow> (None, hp))"

text \<open>The quaternion product (Hamilton's), for the simulated hosts.\<close>

definition hamilton :: "quat \<Rightarrow> quat \<Rightarrow> quat" where
  "hamilton p q =
     (case (p, q) of
        ((a0, a1, a2, a3), (b0, b1, b2, b3)) \<Rightarrow>
          (a0 * b0 - a1 * b1 - a2 * b2 - a3 * b3,
           a0 * b1 + a1 * b0 + a2 * b3 - a3 * b2,
           a0 * b2 - a1 * b3 + a2 * b0 + a3 * b1,
           a0 * b3 + a1 * b2 - a2 * b1 + a3 * b0))"

definition sim_host :: host where
  "sim_host = \<lparr>run = sim_run, quat_mul = hamilton\<rparr>"

text \<open>A host on which every call raises, and one on which only timer registration does.\<close>

definition failing_host :: host where
  "failing_host = \<lparr>run = (\<lambda>c hp. (Some (HostError ''refused''), hp)), quat_mul = hamilton\<rparr>"

definition no_timer_host :: host where
  "no_timer_host =
     \<lparr>run = (\<lambda>c hp. case c of
                       TimerRegister _ _ \<Rightarrow> (Some (HostError ''no timers''), hp)
                     | _ \<Rightarrow> sim_run c hp),
      quat_mul = hamilton\<rparr>"

text \<open>A host that accepts every call and changes nothing.\<close>

definition idle_host :: host where
  "idle_host = \<lparr>run = (\<lambda>c hp. (None, hp)), quat_mul = hamilton\<rparr>"

text \<open>The small store with the region of area 50 a header instead of a WINDOW region.\<close>

definition header_heap :: heap where
  "header_heap = map_of ((51, map_of [(''type'', VStr ''HEADER'')]) # sim_objs)"

text \<open>
  A host that lets no \<open>temp_override\<close> naming a screen be entered, and is the simulated host
  otherwise.
\<close>

definition strict_host :: host where
  "strict_host =
     \<lparr>run = (\<lambda>c hp. case c of
                       OverrideEnter kw \<Rightarrow>
                         (if map_of kw ''screen'' \<noteq> None
                          then (Some (HostError ''invalid context''), hp) else sim_run c hp)
                     | _ \<Rightarrow> sim_run c hp),
      quat_mul = hamilton\<rparr>"

text \<open>
  A host whose axis operators leave the view of the area they are called on in perspective,
  and that is the simulated host otherwise.
\<close>

definition set_perspective :: "heap \<Rightarrow> ref option \<Rightarrow> heap" where
  "set_perspective hp area =
     (case area of
        None \<Rightarrow> hp
      | Some a \<Rightarrow>
          (case fst (region_3d a (hp, [])) of
             Inr (Some r) \<Rightarrow>
               (case hp r of
                  Some ob \<Rightarrow> hp(r \<mapsto> ob(''view_perspective'' \<mapsto> VStr ''PERSP''))
                | None \<Rightarrow> hp)
           | _ \<Rightarrow> hp))"

definition persp_host :: host where
  "persp_host =
     \<lparr>run = (\<lambda>c hp. case c of
                       Op nm ctx kw \<Rightarrow>
                         (if nm = ''view3d.viewnumpad'' \<or> nm = ''view3d.view_axis''
                          then (None, set_perspective hp (sim_target hp ctx)) else sim_run c hp)
                     | _ \<Rightarrow> sim_run c hp),
      quat_mul = hamilton\<rparr>"

section \<open>Properties of computations\<close>

text \<open>
  The integer that \<open>getattr(o, nm, d)\<close> reads in a store: the attribute when the object
  exposes it, the default when it does not (or when \<open>o\<close> is \<open>None\<close>).
\<close>

definition int_or_default :: "heap \<Rightarrow> ref option \<Rightarrow> string \<Rightarrow> int \<Rightarrow> int option" where
  "int_or_default hp ro nm d =
     (case lookup hp ro nm of
        Inr (VInt i) \<Rightarrow> Some i
      | Inl AttributeError \<Rightarrow> Some d
      | _ \<Rightarrow> None)"

text \<open>The object is live and exposes each of the named attributes.\<close>

definition exposes :: "heap \<Rightarrow> ref \<Rightarrow> string list \<Rightarrow> bool" where
  "exposes hp r nms = (case hp r of None \<Rightarrow> False | Some ob \<Rightarrow> list_all (\<lambda>nm. ob nm \<noteq> None) nms)"


text \<open>A computation is read-only when it leaves every world as it found it.\<close>

definition readonly :: "'a comp \<Rightarrow> bool" where
  "readonly m \<longleftrightarrow> (\<forall>w. snd (m w) = w)"

text \<open>\<open>emits P m\<close>: a run of \<open>m\<close> only appends to the history, and only events that satisfy \<open>P\<close>.\<close>

definition emits :: "(event \<Rightarrow> bool) \<Rightarrow> 'a comp \<Rightarrow> bool" where
  "emits P m \<longleftrightarrow> (\<forall>w. \<exists>evs. snd (snd (m w)) = snd w @ evs \<and> list_all P evs)"

text \<open>The events of splitting an area: the split operator and the override blocks around it.\<close>

fun is_split_event :: "event \<Rightarrow> bool" where
  "is_split_event (Call (Op nm ctx kw)) = (nm = ''screen.area_split'')"
| "is_split_event (Call (OverrideEnter kw)) = True"
| "is_split_event (Call (OverrideExit kw)) = True"
| "is_split_event e = False"

text \<open>Classes of events.\<close>

fun is_report :: "event \<Rightarrow> bool" where
  "is_report (Report l m) = True"
| "is_report e = False"

fun is_window_event :: "event \<Rightarrow> bool" where
  "is_window_event (Call (Op nm ctx kw)) = (nm = ''wm.window_new'')"
| "is_window_event (Call (TimerRegister f t)) = True"
| "is_window_event (Write r nm v) = (nm \<in> set [''width'', ''height'', ''x'', ''y'', ''show_statusbar''])"
| "is_window_event (Report l m) = True"
| "is_window_event e = False"

text \<open>The area an operator call is addressed to, by its override.\<close>

fun ctx_area :: "opctx \<Rightarrow> val option" where
  "ctx_area Ambient = None"
| "ctx_area (Temp kw) = map_of kw ''area''"
| "ctx_area (Legacy kw) = map_of kw ''area''"

definition is_axis_op :: "string \<Rightarrow> bool" where
  "is_axis_op nm \<longleftrightarrow> nm = ''view3d.viewnumpad'' \<or> nm = ''view3d.view_axis''"

fun is_axis_event :: "event \<Rightarrow> bool" where
  "is_axis_event (Call (Op nm ctx kw)) = is_axis_op nm"
| "is_axis_event e = False"

text \<open>A call of an axis operator on area \<open>a\<close> with preset \<open>axis\<close>.\<close>

fun axis_on :: "ref \<Rightarrow> string \<Rightarrow> event \<Rightarrow> bool" where
  "axis_on a axis (Call (Op nm ctx kw)) =
     (is_axis_op nm \<and> ctx_area ctx = Some (VRef (Some a)) \<and> map_of kw ''type'' = Some (VStr axis))"
| "axis_on a axis e = False"

text \<open>Every axis operator call is FRONT on the area \<open>tp\<close> or RIGHT on the area \<open>bt\<close>.\<close>

definition axis_assigns :: "ref \<Rightarrow> ref \<Rightarrow> event \<Rightarrow> bool" where
  "axis_assigns tp bt e \<longleftrightarrow>
     (is_axis_event e \<longrightarrow> axis_on tp ''FRONT'' e \<or> axis_on bt ''RIGHT'' e)"

text \<open>A call of \<open>view3d.view_selected\<close> on area \<open>a\<close>.\<close>

fun framed_on :: "ref \<Rightarrow> event \<Rightarrow> bool" where
  "framed_on a (Call (Op nm ctx kw)) =
     (nm = ''view3d.view_selected'' \<and> ctx_area ctx = Some (VRef (Some a)))"
| "framed_on a e = False"

text \<open>The integer attribute \<open>y\<close> of an area in a store.\<close>

definition area_y :: "heap \<Rightarrow> ref \<Rightarrow> int option" where
  "area_y hp a = (case lookup hp (Some a) ''y'' of Inr (VInt y) \<Rightarrow> Some y | _ \<Rightarrow> None)"

text \<open>A call of the operator that opens a window.\<close>

fun creates_window :: "event \<Rightarrow> bool" where
  "creates_window (Call (Op nm ctx kw)) = (nm = ''wm.window_new'')"
| "creates_window e = False"

text \<open>The first split of the split operator: vertical, by factor, in the ambient context.\<close>

definition vertical_split :: call where
  "vertical_split =
     Op ''screen.area_split'' Ambient [(''direction'', VStr ''VERTICAL''), (''factor'', VReal 0.5)]"

text \<open>\<open>preserves I m\<close>: a run of \<open>m\<close> from a store that satisfies \<open>I\<close> ends in one that does.\<close>

definition preserves :: "(heap \<Rightarrow> bool) \<Rightarrow> 'a comp \<Rightarrow> bool" where
  "preserves I m \<longleftrightarrow> (\<forall>w. I (fst w) \<longrightarrow> I (fst (snd (m w))))"

text \<open>The host keeps \<open>I\<close>: no call it answers breaks it.\<close>

definition host_keeps :: "host \<Rightarrow> (heap \<Rightarrow> bool) \<Rightarrow> bool" where
  "host_keeps h I \<longleftrightarrow> (\<forall>c hp. I hp \<longrightarrow> I (snd (run h c hp)))"

text \<open>
  The assignments the add-on makes: \<open>view_perspective\<close> is only ever set to \<open>ORTHO\<close>, and the
  attributes that lead from an area to its space, its settings and its 3D region, and from a
  screen to its areas, are never assigned.
\<close>

definition addon_write :: "string \<Rightarrow> val \<Rightarrow> bool" where
  "addon_write nm v \<longleftrightarrow>
     nm \<notin> set [''spaces'', ''active'', ''shading'', ''overlay'', ''region_3d'', ''areas''] \<and>
     (nm = ''view_perspective'' \<longrightarrow> v = VStr ''ORTHO'')"

text \<open>Every such assignment keeps \<open>I\<close>, whatever the object.\<close>

definition write_keeps :: "(heap \<Rightarrow> bool) \<Rightarrow> bool" where
  "write_keeps I \<longleftrightarrow>
     (\<forall>hp r ob nm v. addon_write nm v \<longrightarrow> I hp \<longrightarrow> hp r = Some ob \<longrightarrow> ob nm \<noteq> None \<longrightarrow>
        I (hp(r \<mapsto> ob(nm \<mapsto> v))))"

text \<open>The object, if any, has not been freed.\<close>

definition live :: "ref option \<Rightarrow> heap \<Rightarrow> bool" where
  "live ro hp = (case ro of None \<Rightarrow> True | Some r \<Rightarrow> hp r \<noteq> None)"

text \<open>The host lets every \<open>temp_override\<close> block be entered.\<close>

definition accepts_override :: "host \<Rightarrow> bool" where
  "accepts_override h \<longleftrightarrow> (\<forall>kw hp. fst (run h (OverrideEnter kw) hp) = None)"

text \<open>\<open>context.view_layer.objects.active\<close> can be read and is not \<open>None\<close>.\<close>

definition active_object_set :: "heap \<Rightarrow> ref \<Rightarrow> bool" where
  "active_object_set hp context =
     (case lookup hp (Some context) ''view_layer'' of
        Inr (VRef vl) \<Rightarrow>
          (case lookup hp vl ''objects'' of
             Inr (VRef objs) \<Rightarrow>
               (case lookup hp objs ''active'' of Inr v \<Rightarrow> v \<noteq> VRef None | Inl e \<Rightarrow> False)
           | _ \<Rightarrow> False)
      | _ \<Rightarrow> False)"

text \<open>\<open>context.area\<close> is an area of type \<open>VIEW_3D\<close>.\<close>

definition in_view3d :: "heap \<Rightarrow> ref \<Rightarrow> bool" where
  "in_view3d hp context =
     (case lookup hp (Some context) ''area'' of
        Inr (VRef (Some a)) \<Rightarrow> lookup hp (Some a) ''type'' = Inr (VStr ''VIEW_3D'')
      | _ \<Rightarrow> False)"

text \<open>A call of \<open>view3d.view_selected\<close>.\<close>

fun is_framing :: "event \<Rightarrow> bool" where
  "is_framing (Call (Op nm ctx kw)) = (nm = ''view3d.view_selected'')"
| "is_framing e = False"

text \<open>
  The events of configuring an area: assignments of the area's editor type, of the shading
  and interface toggles and of the view's perspective and rotation; calls of the axis and
  framing operators inside their override blocks; a redraw request.
\<close>

fun is_configure_event :: "event \<Rightarrow> bool" where
  "is_configure_event (Write r nm v) =
     (nm \<in> set [''type'', ''ui_type'', ''light'', ''color_type'', ''single_color'',
                ''background_type'', ''background_color'', ''show_region_header'',
                ''show_region_tool_header'', ''show_region_toolbar'', ''show_region_ui'',
                ''show_region_hud'', ''show_gizmo'', ''show_gizmo_navigate'', ''show_overlays'',
                ''view_perspective'', ''view_rotation''])"
| "is_configure_event (Call (Op nm ctx kw)) =
     (nm \<in> set [''view3d.viewnumpad'', ''view3d.view_axis'', ''view3d.view_selected''])"
| "is_configure_event (Call (OverrideEnter kw)) = True"
| "is_configure_event (Call (OverrideExit kw)) = True"
| "is_configure_event (Call (TagRedraw a)) = True"
| "is_configure_event e = False"

text \<open>
  The attributes that lead from an area to its space and from a space to its settings and
  its 3D region.
\<close>

definition nav_attrs :: "string list" where
  "nav_attrs = [''spaces'', ''active'', ''shading'', ''overlay'', ''region_3d'']"

text \<open>
  \<open>grows hp hp'\<close>: every attribute exposed in \<open>hp\<close> is exposed in \<open>hp'\<close>, and the
  attributes of \<open>nav_attrs\<close> read the same in both.
\<close>

definition grows :: "heap \<Rightarrow> heap \<Rightarrow> bool" where
  "grows hp hp' \<longleftrightarrow>
     (\<forall>r nm. exposes hp r [nm] \<longrightarrow> exposes hp' r [nm]) \<and>
     (\<forall>ro nm. nm \<in> set nav_attrs \<longrightarrow> lookup hp' ro nm = lookup hp ro nm)"

text \<open>
  \<open>area.spaces.active.region_3d\<close> can be read and exposes \<open>view_perspective\<close>; and that
  attribute is \<open>ORTHO\<close>.
\<close>

definition has_view :: "ref \<Rightarrow> heap \<Rightarrow> bool" where
  "has_view a hp =
     (case fst (region_3d a (hp, [])) of
        Inr (Some r) \<Rightarrow> exposes hp r [''view_perspective'']
      | _ \<Rightarrow> False)"

definition is_ortho :: "ref \<Rightarrow> heap \<Rightarrow> bool" where
  "is_ortho a hp =
     (case fst (region_3d a (hp, [])) of
        Inr (Some r) \<Rightarrow> lookup hp (Some r) ''view_perspective'' = Inr (VStr ''ORTHO'')
      | _ \<Rightarrow> False)"

text \<open>An event that is not an assignment of a perspective other than \<open>ORTHO\<close>.\<close>

fun keeps_ortho :: "event \<Rightarrow> bool" where
  "keeps_ortho (Write r nm v) = (nm = ''view_perspective'' \<longrightarrow> v = VStr ''ORTHO'')"
| "keeps_ortho e = True"

text \<open>
  The attributes the add-on assigns, the host operations it calls, and the events that are
  one of these or a report.
\<close>

definition written_attrs :: "string list" where
  "written_attrs =
     [''type'', ''ui_type'', ''light'', ''color_type'', ''single_color'', ''background_type'',
      ''background_color'', ''show_region_header'', ''show_region_tool_header'',
      ''show_region_toolbar'', ''show_region_ui'', ''show_region_hud'', ''show_gizmo'',
      ''show_gizmo_navigate'', ''show_overlays'', ''view_perspective'', ''view_rotation'',
      ''view_distance'', ''width'', ''height'', ''x'', ''y'', ''show_statusbar'']"

fun is_host_call :: "call \<Rightarrow> bool" where
  "is_host_call (Op nm ctx kw) =
     (nm \<in> set [''wm.window_new'', ''screen.area_split'', ''view3d.viewnumpad'',
                ''view3d.view_axis'', ''view3d.view_selected''])"
| "is_host_call (OverrideEnter kw) = True"
| "is_host_call (OverrideExit kw) = True"
| "is_host_call (TagRedraw a) = True"
| "is_host_call (TimerRegister f t) = (f \<in> set [''_deferred_setup'', ''_post_fix''])"
| "is_host_call (Import m) = (m = ''mathutils'')"

fun is_host_effect :: "event \<Rightarrow> bool" where
  "is_host_effect (Write r nm v) = (nm \<in> set written_attrs)"
| "is_host_effect (Call c) = is_host_call c"
| "is_host_effect (Report l m) = True"

section \<open>Basic facts about computations\<close>

named_theorems pr

named_theorems ro

named_theorems em

lemma ret_app [simp]: "ret x w = (Inr x, w)" by (simp add: ret_def)
lemma throw_app [simp]: "throw e w = (Inl e, w)" by (simp add: throw_def)
lemma bind_app: "bind m f w = (case m w of (Inl e, w') \<Rightarrow> (Inl e, w') | (Inr x, w') \<Rightarrow> f x w')"
  by (simp add: bind_def)
lemma bind_Inr [simp]: "m w = (Inr x, w') \<Longrightarrow> bind m f w = f x w'" by (simp add: bind_def)
lemma bind_Inl [simp]: "m w = (Inl e, w') \<Longrightarrow> bind m f w = (Inl e, w')" by (simp add: bind_def)
lemma seq_app: "seq m n w = (case m w of (Inl e, w') \<Rightarrow> (Inl e, w') | (Inr x, w') \<Rightarrow> n w')"
  by (simp add: seq_def bind_def)
lemma seq_Inr [simp]: "m w = (Inr x, w') \<Longrightarrow> seq m n w = n w'" by (simp add: seq_app)
lemma seq_Inl [simp]: "m w = (Inl e, w') \<Longrightarrow> seq m n w = (Inl e, w')" by (simp add: seq_app)
lemma try_except_as_app:
  "try_except_as m h w = (case m w of (Inl e, w') \<Rightarrow> h e w' | (Inr x, w') \<Rightarrow> (Inr x, w'))"
  by (simp add: try_except_as_def)
lemma try_except_app:
  "try_except m h w = (case m w of (Inl e, w') \<Rightarrow> h w' | (Inr x, w') \<Rightarrow> (Inr x, w'))"
  by (simp add: try_except_def try_except_as_def)
lemma try_pass_app:
  "try_pass m w = (Inr (), snd (m w))"
  by (simp add: try_pass_def try_except_app split: prod.splits sum.splits)

lemma readonlyD: "readonly m \<Longrightarrow> m w = (fst (m w), w)"
  by (metis prod.collapse readonly_def)

lemma readonlyI: "(\<And>w. \<exists>r. m w = (r, w)) \<Longrightarrow> readonly m"
  unfolding readonly_def by (metis snd_conv)

lemma readonly_Pair [ro]: "readonly (Pair r)" by (simp add: readonly_def)
lemma readonly_ret [ro]: "readonly (ret x)" by (simp add: readonly_def)
lemma readonly_throw [ro]: "readonly (throw e)" by (simp add: readonly_def)
lemma readonly_bind [ro]:
  assumes "readonly m" and "\<And>x. readonly (f x)"
  shows "readonly (bind m f)"
proof (rule readonlyI)
  fix w
  show "\<exists>r. bind m f w = (r, w)"
  proof (cases "fst (m w)")
    case (Inl e)
    then have "m w = (Inl e, w)" using readonlyD [OF assms(1), of w] by simp
    then show ?thesis by simp
  next
    case (Inr x)
    then have "m w = (Inr x, w)" using readonlyD [OF assms(1), of w] by simp
    then have "bind m f w = f x w" by simp
    then show ?thesis using readonlyD [OF assms(2), of x w] by metis
  qed
qed
lemma readonly_try_except [ro]:
  assumes "readonly m" and "readonly n"
  shows "readonly (try_except m n)"
proof (rule readonlyI)
  fix w
  show "\<exists>r. try_except m n w = (r, w)"
  proof (cases "fst (m w)")
    case (Inl e)
    then have "m w = (Inl e, w)" using readonlyD [OF assms(1), of w] by simp
    then have "try_except m n w = n w" by (simp add: try_except_app)
    then show ?thesis using readonlyD [OF assms(2), of w] by metis
  next
    case (Inr x)
    then have "m w = (Inr x, w)" using readonlyD [OF assms(1), of w] by simp
    then show ?thesis by (simp add: try_except_app)
  qed
qed
lemma readonly_getattr [ro]: "readonly (getattr r nm)" by (simp add: readonly_def getattr_def)
lemma readonly_getattr_default [ro]: "readonly (getattr_default r nm d)"
  by (simp add: readonly_def getattr_default_def split: sum.splits exn.splits)
lemma readonly_as_ref [ro]: "readonly (as_ref v)" by (cases v) (simp_all add: as_ref_def ro)
lemma readonly_as_refs [ro]: "readonly (as_refs v)" by (cases v) (simp_all add: as_refs_def ro)
lemma readonly_as_int [ro]: "readonly (as_int v)" by (cases v) (simp_all add: as_int_def ro)
lemma readonly_as_quat [ro]: "readonly (as_quat v)" by (cases v) (simp_all add: as_quat_def ro)
lemma readonly_get_ref [ro]: "readonly (get_ref r nm)" by (simp add: get_ref_def ro)
lemma readonly_get_refs [ro]: "readonly (get_refs r nm)" by (simp add: get_refs_def ro)
lemma readonly_get_int [ro]: "readonly (get_int r nm)" by (simp add: get_int_def ro)
lemma readonly_get_quat [ro]: "readonly (get_quat r nm)" by (simp add: get_quat_def ro)
lemma readonly_first_of_type [ro]: "readonly (first_of_type t rs)"
  by (induction rs) (simp_all add: ro)
lemma readonly_window_region [ro]: "readonly (window_region a)" by (simp add: window_region_def ro)
lemma readonly_active_space [ro]: "readonly (active_space a)" by (simp add: active_space_def ro)
lemma readonly_region_3d [ro]: "readonly (region_3d a)" by (simp add: region_3d_def ro)
lemma readonly_find [ro]: "readonly (find_window_view3d_area win)"
  unfolding find_window_view3d_area_def
  by (intro ro) (auto intro!: ro split: option.splits)
lemma readonly_areas_if [ro]: "readonly (areas_if v)" by (simp add: areas_if_def ro)
lemma readonly_window_areas [ro]: "readonly (window_areas nw)" by (simp add: window_areas_def ro)

lemma ro_eq: "readonly m \<Longrightarrow> m w = (r, w') \<Longrightarrow> w' = w"
  by (metis readonlyD snd_conv)

lemma body_result:
  assumes "deferred_setup_body h nw w = (Inr x, w')"
  shows "x = None \<or> x = Some 0.05"
  using assms
  unfolding deferred_setup_body_def
  by (auto simp: bind_app seq_app Let_def split: prod.splits sum.splits option.splits list.splits if_splits)

lemma deferred_result:
  "fst (deferred_setup h nw w) = Inr None \<or> fst (deferred_setup h nw w) = Inr (Some 0.05)"
proof -
  obtain r w' where b: "deferred_setup_body h nw w = (r, w')" by (cases "deferred_setup_body h nw w") auto
  show ?thesis
    using body_result [of h nw w _ w'] b
    by (cases r) (auto simp: deferred_setup_def try_except_app)
qed


lemma emitsD: "emits P m \<Longrightarrow> \<exists>evs. snd (snd (m w)) = snd w @ evs \<and> list_all P evs"
  unfolding emits_def by blast

lemma emitsI: "(\<And>w. \<exists>evs. snd (snd (m w)) = snd w @ evs \<and> list_all P evs) \<Longrightarrow> emits P m"
  unfolding emits_def by blast

lemma emits_readonly: "readonly m \<Longrightarrow> emits P m"
proof (rule emitsI)
  fix w
  assume "readonly m"
  then have "snd (m w) = w" unfolding readonly_def by blast
  then have "snd (snd (m w)) = snd w @ []" by simp
  then show "\<exists>evs. snd (snd (m w)) = snd w @ evs \<and> list_all P evs" by (intro exI [of _ "[]"]) simp
qed

lemma emits_ret [em]: "emits P (ret x)" by (simp add: emits_readonly ro)
lemma emits_throw [em]: "emits P (throw e)" by (simp add: emits_readonly ro)

lemma emits_then:
  assumes m: "emits P m" and n: "\<And>r. \<exists>evs. snd (snd (k r (snd (m w)))) = snd (snd (m w)) @ evs \<and> list_all P evs"
  shows "\<exists>evs. snd (snd (k (fst (m w)) (snd (m w)))) = snd w @ evs \<and> list_all P evs"
proof -
  obtain e1 where 1: "snd (snd (m w)) = snd w @ e1" "list_all P e1" using emitsD [OF m] by blast
  obtain e2 where 2: "snd (snd (k (fst (m w)) (snd (m w)))) = snd (snd (m w)) @ e2" "list_all P e2"
    using n by blast
  show ?thesis using 1 2 by (intro exI [of _ "e1 @ e2"]) simp
qed

lemma emits_bind [em]:
  assumes "emits P m" and "\<And>x. emits P (f x)"
  shows "emits P (bind m f)"
proof (rule emitsI)
  fix w
  have "bind m f w = (case fst (m w) of Inl e \<Rightarrow> (Inl e, snd (m w)) | Inr x \<Rightarrow> f x (snd (m w)))"
    by (simp add: bind_app split: prod.splits sum.splits)
  then have "bind m f w = (\<lambda>r s. case r of Inl e \<Rightarrow> (Inl e, s) | Inr x \<Rightarrow> f x s) (fst (m w)) (snd (m w))"
    by simp
  moreover have "\<exists>evs. snd (snd ((\<lambda>r s. case r of Inl e \<Rightarrow> (Inl e, s) | Inr x \<Rightarrow> f x s) (fst (m w)) (snd (m w))))
      = snd w @ evs \<and> list_all P evs"
  proof (rule emits_then [OF assms(1)])
    fix r
    show "\<exists>evs. snd (snd (case r of Inl e \<Rightarrow> (Inl e, snd (m w)) | Inr x \<Rightarrow> f x (snd (m w))))
        = snd (snd (m w)) @ evs \<and> list_all P evs"
      using emitsD [OF assms(2)] by (cases r) auto
  qed
  ultimately show "\<exists>evs. snd (snd (bind m f w)) = snd w @ evs \<and> list_all P evs" by simp
qed

lemma emits_seq [em]: "emits P m \<Longrightarrow> emits P n \<Longrightarrow> emits P (seq m n)"
  by (simp add: seq_def emits_bind)

lemma emits_try_except_as [em]:
  assumes "emits P m" and "\<And>e. emits P (h e)"
  shows "emits P (try_except_as m h)"
proof (rule emitsI)
  fix w
  have "try_except_as m h w = (\<lambda>r s. case r of Inl e \<Rightarrow> h e s | Inr x \<Rightarrow> (Inr x, s)) (fst (m w)) (snd (m w))"
    by (simp add: try_except_as_app split: prod.splits sum.splits)
  moreover have "\<exists>evs. snd (snd ((\<lambda>r s. case r of Inl e \<Rightarrow> h e s | Inr x \<Rightarrow> (Inr x, s)) (fst (m w)) (snd (m w))))
      = snd w @ evs \<and> list_all P evs"
  proof (rule emits_then [OF assms(1)])
    fix r
    show "\<exists>evs. snd (snd (case r of Inl e \<Rightarrow> h e (snd (m w)) | Inr x \<Rightarrow> (Inr x, snd (m w))))
        = snd (snd (m w)) @ evs \<and> list_all P evs"
      using emitsD [OF assms(2)] by (cases r) auto
  qed
  ultimately show "\<exists>evs. snd (snd (try_except_as m h w)) = snd w @ evs \<and> list_all P evs" by simp
qed

lemma emits_try_except [em]: "emits P m \<Longrightarrow> emits P n \<Longrightarrow> emits P (try_except m n)"
  by (simp add: try_except_def emits_try_except_as)

lemma emits_try_pass [em]: "emits P m \<Longrightarrow> emits P (try_pass m)"
  by (simp add: try_pass_def emits_try_except emits_ret)

lemma emits_seqs: "(\<And>m. m \<in> set ms \<Longrightarrow> emits P m) \<Longrightarrow> emits P (seqs ms)"
  by (induction ms) (simp_all add: em)

lemma emits_setattr [em]: "(\<And>r. P (Write r nm v)) \<Longrightarrow> emits P (setattr ro nm v)"
  by (rule emitsI) (simp add: setattr_def split: option.splits)

lemma emits_call [em]: "P (Call c) \<Longrightarrow> emits P (call h c)"
  by (rule emitsI) (simp add: call_def split: prod.splits option.splits)

lemma emits_report [em]: "P (Report l m) \<Longrightarrow> emits P (report l m)"
  by (rule emitsI) (simp add: report_def)

lemma emits_with_override [em]:
  assumes "P (Call (OverrideEnter kw))" and "P (Call (OverrideExit kw))" and "emits P body"
  shows "emits P (with_override h kw body)"
proof -
  have exit: "emits P (call h (OverrideExit kw))" by (rule emits_call) (rule assms(2))
  have inner: "emits P (\<lambda>w. case body w of (r, w') \<Rightarrow>
      (case call h (OverrideExit kw) w' of (Inl e, w'') \<Rightarrow> (Inl e, w'') | (Inr _, w'') \<Rightarrow> (r, w'')))"
  proof (rule emitsI)
    fix w
    obtain e1 where 1: "snd (snd (body w)) = snd w @ e1" "list_all P e1"
      using emitsD [OF assms(3)] by blast
    obtain e2 where 2: "snd (snd (call h (OverrideExit kw) (snd (body w)))) = snd (snd (body w)) @ e2"
      "list_all P e2" using emitsD [OF exit] by blast
    show "\<exists>evs. snd (snd (case body w of (r, w') \<Rightarrow>
      (case call h (OverrideExit kw) w' of (Inl e, w'') \<Rightarrow> (Inl e, w'') | (Inr _, w'') \<Rightarrow> (r, w''))))
        = snd w @ evs \<and> list_all P evs"
      using 1 2 by (intro exI [of _ "e1 @ e2"]) (auto split: prod.splits sum.splits)
  qed
  show ?thesis unfolding with_override_def
    by (rule emits_seq [OF _ inner]) (rule emits_call, rule assms(1))
qed

lemma emits_seqs_Nil [em]: "emits P (seqs [])" by (simp add: emits_ret)

lemma emits_seqs_Cons [em]: "emits P m \<Longrightarrow> emits P (seqs ms) \<Longrightarrow> emits P (seqs (m # ms))"
  by (simp add: emits_seq)

lemma emits_if [em]:
  "(c \<Longrightarrow> emits P a) \<Longrightarrow> (\<not> c \<Longrightarrow> emits P b) \<Longrightarrow> emits P (if c then a else b)"
  by simp

lemma emits_case_option [em]:
  "(x = None \<Longrightarrow> emits P a) \<Longrightarrow> (\<And>y. x = Some y \<Longrightarrow> emits P (b y)) \<Longrightarrow>
   emits P (case x of None \<Rightarrow> a | Some y \<Rightarrow> b y)"
  by (cases x) simp_all

lemma emits_case_list [em]:
  "(xs = [] \<Longrightarrow> emits P a) \<Longrightarrow> (\<And>y ys. xs = y # ys \<Longrightarrow> emits P (b y ys)) \<Longrightarrow>
   emits P (case xs of [] \<Rightarrow> a | y # ys \<Rightarrow> b y ys)"
  by (cases xs) simp_all

lemma emits_case_prod [em]:
  "(\<And>a b. x = (a, b) \<Longrightarrow> emits P (f a b)) \<Longrightarrow> emits P (case x of (a, b) \<Rightarrow> f a b)"
  by (cases x) simp_all

lemmas emits_reads [em] =
  emits_readonly [OF readonly_getattr] emits_readonly [OF readonly_getattr_default]
  emits_readonly [OF readonly_as_ref] emits_readonly [OF readonly_as_refs]
  emits_readonly [OF readonly_as_int] emits_readonly [OF readonly_as_quat]
  emits_readonly [OF readonly_get_ref] emits_readonly [OF readonly_get_refs]
  emits_readonly [OF readonly_get_int] emits_readonly [OF readonly_get_quat]
  emits_readonly [OF readonly_first_of_type] emits_readonly [OF readonly_window_region]
  emits_readonly [OF readonly_active_space] emits_readonly [OF readonly_region_3d]
  emits_readonly [OF readonly_find] emits_readonly [OF readonly_areas_if]
  emits_readonly [OF readonly_window_areas]

lemma readonly_get_int_default [ro]: "readonly (get_int_default r nm d)"
  by (simp add: get_int_default_def ro)

lemmas emits_get_int_default [em] = emits_readonly [OF readonly_get_int_default]

lemma emits_deferred_split: "emits is_split_event (deferred_split h nw a r)"
  unfolding deferred_split_def Let_def
  by (intro em) simp_all


lemmas ro_dest =
  ro_eq [OF readonly_find] ro_eq [OF readonly_window_areas] ro_eq [OF readonly_get_int]
  ro_eq [OF readonly_window_region]

lemma body_retry_world:
  assumes "deferred_setup_body h nw w = (Inr (Some x), w')"
  shows "w' = w \<or> (\<exists>a r ok. deferred_split h nw a r w = (ok, w'))"
  using assms
  unfolding deferred_setup_body_def
  by (auto simp: bind_app seq_app Let_def
      split: prod.splits sum.splits option.splits list.splits if_splits dest!: ro_dest)

lemma deferred_retry_events:
  assumes "fst (deferred_setup h nw w) = Inr (Some x)"
  shows "\<exists>evs. snd (snd (deferred_setup h nw w)) = snd w @ evs \<and> list_all is_split_event evs"
proof -
  obtain r w' where b: "deferred_setup_body h nw w = (r, w')"
    by (cases "deferred_setup_body h nw w") auto
  with assms have r: "r = Inr (Some x)" and d: "deferred_setup h nw w = (r, w')"
    by (cases r; simp add: deferred_setup_def try_except_app)+
  from body_retry_world [OF b [unfolded r]] show ?thesis
  proof
    assume "w' = w"
    then show ?thesis using d by simp
  next
    assume "\<exists>a r ok. deferred_split h nw a r w = (ok, w')"
    then obtain a rg ok where "deferred_split h nw a rg w = (ok, w')" by blast
    then have "w' = snd (deferred_split h nw a rg w)" by simp
    then show ?thesis using d emitsD [OF emits_deferred_split, of h nw a rg w] by simp
  qed
qed

lemma first_of_type_mem:
  "first_of_type t rs w = (Inr (Some a), w') \<Longrightarrow> a \<in> set rs"
  by (induction rs arbitrary: w w') (auto simp: bind_app split: prod.splits sum.splits if_splits)

lemma find_Some_areas:
  assumes "fst (find_window_view3d_area nw w) = Inr (Some a, r)"
  shows "\<exists>before. window_areas nw w = (Inr before, w) \<and> a \<in> set before"
  using assms
  unfolding find_window_view3d_area_def window_areas_def areas_if_def get_ref_def get_refs_def
    getattr_def getattr_default_def as_ref_def as_refs_def
  by (auto simp: bind_app try_except_app lookup_def
      split: prod.splits sum.splits option.splits val.splits exn.splits if_splits
      dest: first_of_type_mem ro_eq [OF readonly_first_of_type])


lemma deferred_no_area:
  assumes "fst (find_window_view3d_area nw w) = Inr (a, r)" and "a = None \<or> r = None"
  shows "deferred_setup h nw w = (Inr (Some 0.05), w)"
proof -
  have f: "find_window_view3d_area nw w = (Inr (a, r), w)"
    using readonlyD [OF readonly_find, of nw w] assms(1) by simp
  have "deferred_setup_body h nw w = (Inr (Some 0.05), w)"
    using assms(2) unfolding deferred_setup_body_def
    by (auto simp: bind_app f split: option.splits)
  then show ?thesis by (simp add: deferred_setup_def try_except_app)
qed

lemma deferred_after_find:
  assumes "fst (find_window_view3d_area nw w) = Inr (Some a, Some r)"
  shows "\<exists>before. fst (window_areas nw w) = Inr before \<and> a \<in> set before \<and>
     deferred_setup_body h nw w =
       bind (deferred_split h nw a r)
         (\<lambda>ok. if \<not> ok then ret (Some 0.05)
            else bind (window_areas nw)
              (\<lambda>after.
                 case not_in after before of
                   [] \<Rightarrow> ret (Some 0.05)
                 | new_area # _ \<Rightarrow>
                     bind (get_int (Some a) ''y'')
                       (\<lambda>ya. bind (get_int (Some new_area) ''y'')
                          (\<lambda>yn.
                             let area_top = (if yn \<le> ya then a else new_area);
                                 area_bottom = (if yn \<le> ya then new_area else a)
                             in bind (window_region (Some area_top))
                                  (\<lambda>rt. bind (window_region (Some area_bottom))
                                     (\<lambda>rb. case (rt, rb) of
                                        (Some reg_top, Some reg_bottom) \<Rightarrow>
                                          seq (deferred_finish h nw area_top reg_top
                                                 area_bottom reg_bottom)
                                            (ret None)
                                      | _ \<Rightarrow> ret (Some 0.05))))))) w"
proof -
  have f: "find_window_view3d_area nw w = (Inr (Some a, Some r), w)"
    using readonlyD [OF readonly_find, of nw w] assms(1) by simp
  obtain before where b: "window_areas nw w = (Inr before, w)" "a \<in> set before"
    using find_Some_areas [OF assms] by blast
  show ?thesis
    unfolding deferred_setup_body_def
    by (rule exI [of _ before]) (simp add: bind_app f b)
qed

lemma deferred_split_failed:
  assumes "fst (find_window_view3d_area nw w) = Inr (Some a, Some r)"
    and "fst (deferred_split h nw a r w) = Inr False"
  shows "fst (deferred_setup h nw w) = Inr (Some 0.05)"
proof -
  obtain w1 where s: "deferred_split h nw a r w = (Inr False, w1)"
    using assms(2) by (cases "deferred_split h nw a r w") auto
  have "deferred_setup_body h nw w = (Inr (Some 0.05), w1)"
    using deferred_after_find [OF assms(1), of h] by (auto simp: bind_app s)
  then show ?thesis by (simp add: deferred_setup_def try_except_app)
qed

lemma deferred_no_new_area:
  assumes "fst (find_window_view3d_area nw w) = Inr (Some a, Some r)"
    and "fst (window_areas nw w) = Inr before"
    and "fst (deferred_split h nw a r w) = Inr True"
    and "fst (window_areas nw (snd (deferred_split h nw a r w))) = Inr after"
    and "not_in after before = []"
  shows "fst (deferred_setup h nw w) = Inr (Some 0.05)"
proof -
  obtain w1 where s: "deferred_split h nw a r w = (Inr True, w1)"
    using assms(3) by (cases "deferred_split h nw a r w") auto
  have a: "window_areas nw w1 = (Inr after, w1)"
    using readonlyD [OF readonly_window_areas, of nw w1] assms(4) s by simp
  have "deferred_setup_body h nw w = (Inr (Some 0.05), w1)"
    using deferred_after_find [OF assms(1), of h] assms(2,5)
    by (auto simp: bind_app s a)
  then show ?thesis by (simp add: deferred_setup_def try_except_app)
qed

lemma post_fix_result: "fst (post_fix h cap w) = Inr None"
  by (cases cap) (simp add: post_fix_def seq_app try_pass_app)


lemma deferred_configured_stops:
  assumes "snd (snd (deferred_setup h nw w)) = snd w @ evs" and "\<not> list_all is_split_event evs"
  shows "fst (deferred_setup h nw w) = Inr None"
proof (rule ccontr)
  assume "fst (deferred_setup h nw w) \<noteq> Inr None"
  then have "fst (deferred_setup h nw w) = Inr (Some 0.05)" using deferred_result [of h nw w] by blast
  from deferred_retry_events [OF this] assms show False by auto
qed

section \<open>Opening the new window\<close>

lemma get_int_default_app:
  "int_or_default hp ro nm d = Some i \<Longrightarrow> get_int_default ro nm d (hp, lg) = (Inr i, (hp, lg))"
  by (auto simp: get_int_default_def int_or_default_def getattr_default_def bind_app as_int_def
      split: sum.splits val.splits exn.splits)

lemma lookup_upd:
  "hp r = Some ob \<Longrightarrow> ob' nm = ob nm \<Longrightarrow> lookup (hp(r \<mapsto> ob')) ro nm = lookup hp ro nm"
  by (cases ro) (auto simp: lookup_def split: option.splits)

lemma int_or_default_upd:
  "hp r = Some ob \<Longrightarrow> ob' nm = ob nm \<Longrightarrow>
   int_or_default (hp(r \<mapsto> ob')) ro nm d = int_or_default hp ro nm d"
  by (simp add: int_or_default_def lookup_upd)

lemma py_int_max: "0 \<le> k \<Longrightarrow> max k (py_int r) = max k \<lfloor>r\<rfloor>"
  unfolding py_int_def by (auto simp: max_def; linarith)

lemma setattr_ok:
  "hp r = Some ob \<Longrightarrow> ob nm = Some old \<Longrightarrow>
   setattr (Some r) nm v (hp, lg) = (Inr (), (hp(r \<mapsto> ob(nm \<mapsto> v)), lg @ [Write r nm v]))"
  by (simp add: setattr_def)

lemma size_new_window_log:
  assumes n: "exposes hp n [''width'', ''height'', ''x'', ''y'']"
    and wd: "int_or_default hp orig_win ''width'' 1600 = Some wd"
    and ht: "int_or_default hp orig_win ''height'' 900 = Some ht"
    and x: "int_or_default hp orig_win ''x'' 100 = Some x"
    and y: "int_or_default hp orig_win ''y'' 100 = Some y"
  shows "\<exists>rest. snd (snd (size_new_window orig_win (Some n) (hp, lg))) =
     lg @ [Write n ''width'' (VInt (max 480 \<lfloor>0.25 * real_of_int wd\<rfloor>)),
           Write n ''height'' (VInt (max 360 \<lfloor>0.25 * real_of_int ht\<rfloor>)),
           Write n ''x'' (VInt (x + 80)),
           Write n ''y'' (VInt (y - 80))] @ rest"
proof -
  obtain ob v1 v2 v3 v4 where ob: "hp n = Some ob" "ob ''width'' = Some v1" "ob ''height'' = Some v2"
      "ob ''x'' = Some v3" "ob ''y'' = Some v4"
    using n by (auto simp: exposes_def split: option.splits)
  define tw where "tw = max 480 \<lfloor>0.25 * real_of_int wd\<rfloor>"
  define th where "th = max 360 \<lfloor>0.25 * real_of_int ht\<rfloor>"
  have tw: "max 480 (py_int (real_of_int wd * 0.25)) = tw"
    and th: "max 360 (py_int (real_of_int ht * 0.25)) = th"
    by (simp_all add: tw_def th_def py_int_max mult.commute)
  let ?l1 = "lg @ [Write n ''width'' (VInt tw)]"
  let ?l2 = "?l1 @ [Write n ''height'' (VInt th)]"
  let ?l3 = "?l2 @ [Write n ''x'' (VInt (x + 80))]"
  let ?l4 = "?l3 @ [Write n ''y'' (VInt (y - 80))]"
  let ?o1 = "ob(''width'' \<mapsto> VInt tw)"
  let ?o2 = "?o1(''height'' \<mapsto> VInt th)"
  let ?o3 = "?o2(''x'' \<mapsto> VInt (x + 80))"
  let ?o4 = "?o3(''y'' \<mapsto> VInt (y - 80))"
  have s1: "setattr (Some n) ''width'' (VInt tw) (hp, lg) = (Inr (), (hp(n \<mapsto> ?o1), ?l1))"
    using ob by (simp add: setattr_ok)
  have s2: "setattr (Some n) ''height'' (VInt th) (hp(n \<mapsto> ?o1), ?l1) = (Inr (), (hp(n \<mapsto> ?o2), ?l2))"
    using ob by (simp add: setattr_ok [where ob = ?o1])
  have x3: "get_int_default orig_win ''x'' 100 (hp(n \<mapsto> ?o2), ?l2) = (Inr x, (hp(n \<mapsto> ?o2), ?l2))"
    using x ob(1) by (intro get_int_default_app) (subst int_or_default_upd [where ob = ob], simp_all)
  have s3: "setattr (Some n) ''x'' (VInt (x + 80)) (hp(n \<mapsto> ?o2), ?l2) = (Inr (), (hp(n \<mapsto> ?o3), ?l3))"
    using ob by (simp add: setattr_ok [where ob = ?o2])
  have y3: "get_int_default orig_win ''y'' 100 (hp(n \<mapsto> ?o3), ?l3) = (Inr y, (hp(n \<mapsto> ?o3), ?l3))"
    using y ob(1) by (intro get_int_default_app) (subst int_or_default_upd [where ob = ob], simp_all)
  have s4: "setattr (Some n) ''y'' (VInt (y - 80)) (hp(n \<mapsto> ?o3), ?l3) = (Inr (), (hp(n \<mapsto> ?o4), ?l4))"
    using ob by (simp add: setattr_ok [where ob = ?o3])
  define tail where "tail = seq (bind (get_ref (Some n) ''screen'')
                     (\<lambda>sc. setattr sc ''show_statusbar'' (VBool False))) (seqs [])"
  have tl: "emits (\<lambda>e. True) tail" unfolding tail_def
    by (intro em emits_readonly ro) simp_all
  obtain rest where rest: "snd (snd (tail (hp(n \<mapsto> ?o4), ?l4))) = ?l4 @ rest"
    using emitsD [OF tl, of "(hp(n \<mapsto> ?o4), ?l4)"] by auto
  have "snd (size_new_window orig_win (Some n) (hp, lg)) = snd (tail (hp(n \<mapsto> ?o4), ?l4))"
    unfolding size_new_window_def Let_def
    by (simp only: try_pass_app bind_app seq_app get_int_default_app [OF wd] get_int_default_app [OF ht]
        tw th s1 s2 s3 s4 x3 y3 prod.case sum.case snd_conv fst_conv tail_def seqs.simps)
  then show ?thesis using rest by (simp add: tw_def th_def)
qed


lemma get_ref_app:
  "lookup hp ro nm = Inr (VRef r) \<Longrightarrow> get_ref ro nm (hp, lg) = (Inr r, (hp, lg))"
  by (simp add: get_ref_def getattr_def bind_app as_ref_def)

lemma call_app:
  "call h c (hp, lg) =
     (case fst (run h c hp) of None \<Rightarrow> Inr () | Some e \<Rightarrow> Inl e, (snd (run h c hp), lg @ [Call c]))"
  by (simp add: call_def split: prod.splits option.splits)

lemma after_window_result: "fst (after_window h orig_win new_win w) = Inr (FINISHED, new_win)"
  by (simp add: after_window_def size_new_window_def hide_statusbar_def seq_app try_pass_app)

lemma emits_size_new_window:
  "emits (\<lambda>e. is_window_event e \<and> \<not> is_report e) (size_new_window orig_win new_win)"
  unfolding size_new_window_def Let_def
  by (intro em) auto

lemma emits_hide_statusbar:
  "emits (\<lambda>e. is_window_event e \<and> \<not> is_report e) (hide_statusbar new_win)"
  unfolding hide_statusbar_def
  by (intro em) auto

lemma emits_after_window:
  "emits (\<lambda>e. is_window_event e \<and> \<not> is_report e) (after_window h orig_win new_win)"
  unfolding after_window_def
  by (intro em emits_size_new_window emits_hide_statusbar) auto

lemma emits_mono: "emits P m \<Longrightarrow> (\<And>e. P e \<Longrightarrow> Q e) \<Longrightarrow> emits Q m"
  unfolding emits_def list_all_iff by meson

lemma emits_dual_execute: "emits is_window_event (dual_execute h context)"
  unfolding dual_execute_def window_new_def
  by (intro em emits_mono [OF emits_after_window]) auto

lemma dual_execute_cases:
  assumes "fst (get_ref (Some context) ''window'' w) = Inr orig_win"
  shows "dual_execute h context w =
     (case fst (run h window_new (fst w)) of
        Some e \<Rightarrow> (Inr (CANCELLED, None),
                   (snd (run h window_new (fst w)),
                    snd w @ [Call window_new, Report ''ERROR'' (''Failed to open new window: '' @ exn_str e)]))
      | None \<Rightarrow>
          bind (get_ref (Some bpy_context) ''window'') (after_window h orig_win)
            (snd (run h window_new (fst w)), snd w @ [Call window_new]))"
proof -
  have g: "get_ref (Some context) ''window'' w = (Inr orig_win, w)"
    using readonlyD [OF readonly_get_ref, of "Some context" "''window''" w] assms by simp
  obtain hp lg where w: "w = (hp, lg)" by (cases w)
  have c: "try_except_as (seq (call h window_new) (ret True))
          (\<lambda>e. seq (report ''ERROR'' (''Failed to open new window: '' @ exn_str e)) (ret False)) (hp, lg) =
        (case fst (run h window_new hp) of
           None \<Rightarrow> (Inr True, (snd (run h window_new hp), lg @ [Call window_new]))
         | Some e \<Rightarrow> (Inr False, (snd (run h window_new hp),
              lg @ [Call window_new, Report ''ERROR'' (''Failed to open new window: '' @ exn_str e)])))"
    by (simp add: try_except_as_app seq_app call_app report_def split: option.splits)
  have "dual_execute h context w =
      bind (try_except_as (seq (call h window_new) (ret True))
          (\<lambda>e. seq (report ''ERROR'' (''Failed to open new window: '' @ exn_str e)) (ret False)))
        (\<lambda>opened. if \<not> opened then ret (CANCELLED, None)
           else bind (get_ref (Some bpy_context) ''window'') (after_window h orig_win)) w"
    unfolding dual_execute_def using g
    by (simp add: bind_app [of "get_ref (Some context) ''window''"])
  also have "\<dots> = (case fst (run h window_new (fst w)) of
        Some e \<Rightarrow> (Inr (CANCELLED, None),
                   (snd (run h window_new (fst w)),
                    snd w @ [Call window_new, Report ''ERROR'' (''Failed to open new window: '' @ exn_str e)]))
      | None \<Rightarrow>
          bind (get_ref (Some bpy_context) ''window'') (after_window h orig_win)
            (snd (run h window_new (fst w)), snd w @ [Call window_new]))"
    unfolding w
    by (cases "fst (run h window_new hp)")
      (simp_all only: bind_app c fst_conv snd_conv option.case prod.case sum.case
        if_True if_False not_True_eq_False not_False_eq_True ret_app)
  finally show ?thesis .
qed


lemma after_window_log:
  "\<exists>evs. snd (snd (after_window h orig_win new_win w)) =
      snd w @ evs @ [Call (TimerRegister ''_deferred_setup'' 0.05)] \<and>
      list_all (\<lambda>e. is_window_event e \<and> \<not> is_report e) evs"
proof -
  let ?P = "\<lambda>e. is_window_event e \<and> \<not> is_report e"
  let ?w1 = "snd (size_new_window orig_win new_win w)"
  let ?w2 = "snd (hide_statusbar new_win ?w1)"
  obtain e1 where 1: "snd ?w1 = snd w @ e1" "list_all ?P e1"
    using emitsD [OF emits_size_new_window] by blast
  obtain e2 where 2: "snd ?w2 = snd ?w1 @ e2" "list_all ?P e2"
    using emitsD [OF emits_hide_statusbar] by blast
  have "snd (snd (after_window h orig_win new_win w)) =
      snd ?w2 @ [Call (TimerRegister ''_deferred_setup'' 0.05)]"
    by (simp add: after_window_def size_new_window_def hide_statusbar_def seq_app try_pass_app
        call_def split: prod.splits option.splits)
  then show ?thesis using 1 2 by (intro exI [of _ "e1 @ e2"]) simp
qed

section \<open>Events of the configuration functions\<close>

lemma emits_axis_in_override:
  "(\<And>c. P (Call c)) \<Longrightarrow> emits P (axis_in_override h kw axis)"
  unfolding axis_in_override_def by (intro em) auto

lemma emits_axis_legacy:
  "(\<And>c. P (Call c)) \<Longrightarrow> emits P (axis_legacy h kw axis)"
  unfolding axis_legacy_def by (intro em) auto

lemma emits_force_ortho:
  "(\<And>r nm v. P (Write r nm v)) \<Longrightarrow> emits P (force_ortho a)"
  unfolding force_ortho_def by (intro em) auto

lemma emits_lock_rotation:
  "(\<And>r nm v. P (Write r nm v)) \<Longrightarrow> emits P (lock_rotation a)"
  unfolding lock_rotation_def by (intro em) auto

lemma emits_apply_view_axis:
  assumes "\<And>c. P (Call c)" and "\<And>r nm v. P (Write r nm v)"
  shows "emits P (apply_view_axis h win a r axis)"
  unfolding apply_view_axis_def
  by (intro em emits_axis_in_override emits_axis_legacy emits_force_ortho emits_lock_rotation assms)

lemma emits_hide_ui:
  "(\<And>r nm v. P (Write r nm v)) \<Longrightarrow> emits P (hide_ui sp)"
  unfolding hide_ui_def hide_overlays_def by (intro em) auto

lemma emits_configure:
  assumes "\<And>c. P (Call c)" and "\<And>r nm v. P (Write r nm v)"
  shows "emits P (configure_silhouette_area h win a r axis)"
  unfolding configure_silhouette_area_def silhouette_styling_def hide_ui_first_def hide_overlays_def
    frame_selected_def
  by (intro em emits_apply_view_axis emits_hide_ui assms)

lemma emits_configure_pair:
  assumes "\<And>c. P (Call c)" and "\<And>r nm v. P (Write r nm v)"
  shows "emits P (configure_pair h win a r b rb)"
  unfolding configure_pair_def
  by (intro em emits_apply_view_axis emits_configure assms)

lemma emits_distance_backoff:
  "(\<And>r nm v. P (Write r nm v)) \<Longrightarrow> emits P (distance_backoff a b)"
  unfolding distance_backoff_def Let_def as_float_def
  by (intro em) (auto intro!: em split: val.splits)

lemma emits_deferred_finish:
  assumes "\<And>c. P (Call c)" and "\<And>r nm v. P (Write r nm v)"
  shows "emits P (deferred_finish h win a r b rb)"
  unfolding deferred_finish_def
  by (intro em emits_configure_pair emits_hide_ui emits_distance_backoff assms)

lemma emits_deferred_setup:
  assumes "\<And>c. P (Call c)" and "\<And>r nm v. P (Write r nm v)"
  shows "emits P (deferred_setup h nw)"
  unfolding deferred_setup_def deferred_setup_body_def Let_def
  by (intro em emits_deferred_finish emits_mono [OF emits_deferred_split] assms)
    (auto intro!: em emits_deferred_finish assms elim: is_split_event.elims)


lemma dual_execute_finished:
  assumes "fst (get_ref (Some context) ''window'' w) = Inr orig_win"
    and "fst (run h window_new (fst w)) = None"
    and "lookup (snd (run h window_new (fst w))) (Some bpy_context) ''window'' = Inr (VRef nw)"
  shows "dual_execute h context w =
     after_window h orig_win nw (snd (run h window_new (fst w)), snd w @ [Call window_new])"
  using dual_execute_cases [OF assms(1), of h] assms(2)
  by (simp add: bind_app get_ref_app [OF assms(3)])

lemma dual_execute_cancelled:
  assumes "fst (dual_execute h context w) = Inr (CANCELLED, x)"
  shows "fst (run h window_new (fst w)) \<noteq> None"
proof
  assume n: "fst (run h window_new (fst w)) = None"
  obtain r w1 where g: "get_ref (Some context) ''window'' w = (r, w1)"
    by (cases "get_ref (Some context) ''window'' w") auto
  show False
  proof (cases r)
    case (Inl e)
    then show False using assms g by (simp add: dual_execute_def bind_app)
  next
    case (Inr orig_win)
    then have "fst (get_ref (Some context) ''window'' w) = Inr orig_win" using g by simp
    from dual_execute_cases [OF this, of h] n assms
    have "fst (bind (get_ref (Some bpy_context) ''window'') (after_window h orig_win)
        (snd (run h window_new (fst w)), snd w @ [Call window_new])) = Inr (CANCELLED, x)" by simp
    then show False
      using after_window_result [of h orig_win]
      by (auto simp: bind_app split: prod.splits sum.splits)
  qed
qed

text \<open>
  Claim C8. Provided the operator can read the window of its context, \<open>execute\<close> of
  \<open>view3d.open_silhouette_view_dual\<close> returns \<open>CANCELLED\<close> exactly when \<open>wm.window_new\<close>
  raises. Otherwise (the new window being readable from the global context) it returns
  \<open>FINISHED\<close>, its last action being the registration of the timer, whether or not that
  registration raised, and having reported nothing; \<open>execute\<close> itself only opens and
  sizes the window. The deferred setup never raises and never reports: every exception
  in it is swallowed. So \<open>FINISHED\<close> says nothing about the views having been configured.
\<close>

theorem dual_execute_status:
  assumes "fst (get_ref (Some context) ''window'' w) = Inr orig_win"
  shows
    "(\<forall>e. fst (run h window_new (fst w)) = Some e \<longrightarrow>
        fst (dual_execute h context w) = Inr (CANCELLED, None)) \<and>
     (\<forall>nw. fst (run h window_new (fst w)) = None \<and>
        lookup (snd (run h window_new (fst w))) (Some bpy_context) ''window'' = Inr (VRef nw) \<longrightarrow>
        fst (dual_execute h context w) = Inr (FINISHED, nw) \<and>
        (\<exists>evs. snd (snd (dual_execute h context w)) =
             snd w @ [Call window_new] @ evs @ [Call (TimerRegister ''_deferred_setup'' 0.05)] \<and>
           list_all (\<lambda>e. is_window_event e \<and> \<not> is_report e) evs)) \<and>
     (\<forall>x. fst (dual_execute h context w) = Inr (CANCELLED, x) \<longrightarrow>
        fst (run h window_new (fst w)) \<noteq> None) \<and>
     (\<exists>x. fst (deferred_setup h nw' w') = Inr x) \<and>
     (\<exists>evs. snd (snd (deferred_setup h nw' w')) = snd w' @ evs \<and>
        list_all (\<lambda>e. \<not> is_report e) evs)"
proof (intro conjI allI impI)
  fix e
  assume "fst (run h window_new (fst w)) = Some e"
  then show "fst (dual_execute h context w) = Inr (CANCELLED, None)"
    using dual_execute_cases [OF assms, of h] by simp
next
  fix nw
  assume a: "fst (run h window_new (fst w)) = None \<and>
      lookup (snd (run h window_new (fst w))) (Some bpy_context) ''window'' = Inr (VRef nw)"
  then have eq: "dual_execute h context w =
     after_window h orig_win nw (snd (run h window_new (fst w)), snd w @ [Call window_new])"
    using dual_execute_finished [OF assms] by blast
  show "fst (dual_execute h context w) = Inr (FINISHED, nw)"
    unfolding eq by (rule after_window_result)
  show "\<exists>evs. snd (snd (dual_execute h context w)) =
       snd w @ [Call window_new] @ evs @ [Call (TimerRegister ''_deferred_setup'' 0.05)] \<and>
       list_all (\<lambda>e. is_window_event e \<and> \<not> is_report e) evs"
    unfolding eq
    using after_window_log [of h orig_win nw "(snd (run h window_new (fst w)), snd w @ [Call window_new])"]
    by auto
next
  fix x
  assume "fst (dual_execute h context w) = Inr (CANCELLED, x)"
  then show "fst (run h window_new (fst w)) \<noteq> None" by (rule dual_execute_cancelled)
next
  show "\<exists>x. fst (deferred_setup h nw' w') = Inr x"
    using deferred_result [of h nw' w'] by auto
next
  have "emits (\<lambda>e. \<not> is_report e) (deferred_setup h nw')"
    by (rule emits_deferred_setup) simp_all
  then show "\<exists>evs. snd (snd (deferred_setup h nw' w')) = snd w' @ evs \<and>
      list_all (\<lambda>e. \<not> is_report e) evs"
    by (rule emitsD)
qed


lemma sim_context_window: "fst (get_ref (Some 0) ''window'' (sim_heap, [])) = Inr (Some 1)"
  by code_simp

lemma sim_context_no_window: "fst (get_ref (Some 8) ''window'' (sim_heap, [])) = Inr None"
  by code_simp

lemma failing_window_new: "fst (run failing_host window_new sim_heap) = Some (HostError ''refused'')"
  by (simp add: failing_host_def)

lemma no_timer_window_new: "fst (run no_timer_host window_new sim_heap) = None"
  by code_simp

lemma no_timer_new_window:
  "lookup (snd (run no_timer_host window_new sim_heap)) (Some bpy_context) ''window'' = Inr (VRef (Some 2))"
  by code_simp

lemma no_timer_refuses:
  "fst (run no_timer_host (TimerRegister ''_deferred_setup'' 0.05) hp) = Some (HostError ''no timers'')"
  by (simp add: no_timer_host_def)

theorem dual_execute_status_witness:
  "fst (get_ref (Some 0) ''window'' (sim_heap, [])) = Inr (Some 1) \<and>
   fst (run failing_host window_new sim_heap) = Some (HostError ''refused'') \<and>
   fst (dual_execute failing_host 0 (sim_heap, [])) = Inr (CANCELLED, None) \<and>
   fst (run no_timer_host window_new sim_heap) = None \<and>
   fst (run no_timer_host (TimerRegister ''_deferred_setup'' 0.05) sim_heap) = Some (HostError ''no timers'') \<and>
   fst (dual_execute no_timer_host 0 (sim_heap, [])) = Inr (FINISHED, Some 2)"
proof -
  have 1: "fst (dual_execute failing_host 0 (sim_heap, [])) = Inr (CANCELLED, None)"
    using dual_execute_status [OF sim_context_window, of failing_host None "(sim_heap, [])"]
      failing_window_new by simp
  have 2: "fst (dual_execute no_timer_host 0 (sim_heap, [])) = Inr (FINISHED, Some 2)"
    using dual_execute_status [OF sim_context_window, of no_timer_host None "(sim_heap, [])"]
      no_timer_window_new no_timer_new_window by simp
  show ?thesis
    using 1 2 sim_context_window failing_window_new no_timer_window_new no_timer_refuses by simp
qed

lemma after_window_sizes:
  assumes "\<exists>rest. snd (snd (size_new_window orig_win nw w)) = snd w @ evs @ rest"
  shows "\<exists>rest. snd (snd (after_window h orig_win nw w)) = snd w @ evs @ rest"
proof -
  define k where "k = seq (hide_statusbar nw)
          (seq (try_pass (call h (TimerRegister ''_deferred_setup'' 0.05)))
             (ret (FINISHED, nw)))"
  have k: "emits (\<lambda>e. True) k" unfolding k_def hide_statusbar_def
    by (intro em) simp_all
  have "after_window h orig_win nw w = k (snd (size_new_window orig_win nw w))"
    by (simp add: after_window_def k_def size_new_window_def seq_app [of "try_pass _"] try_pass_app)
  moreover obtain e2 where "snd (snd (k (snd (size_new_window orig_win nw w)))) =
      snd (snd (size_new_window orig_win nw w)) @ e2"
    using emitsD [OF k] by blast
  ultimately show ?thesis using assms by auto
qed

text \<open>
  Claim C6. When the new window has been opened and exposes its geometry, the first
  actions of \<open>execute\<close> after \<open>wm.window_new\<close> are to assign the new window the width
  \<open>max(480, floor(0.25 * ow))\<close>, the height \<open>max(360, floor(0.25 * oh))\<close>, and the position
  \<open>(ox + 80, oy - 80)\<close>, where \<open>ow\<close>, \<open>oh\<close>, \<open>ox\<close>, \<open>oy\<close> are the original window's width,
  height, x and y, or 1600, 900, 100 and 100 where it lacks the attribute. The sizes are
  taken below \<open>2^53\<close> in magnitude, where the float product is exact.
\<close>

theorem window_sizing:
  assumes "fst (get_ref (Some context) ''window'' w) = Inr orig_win"
    and "fst (run h window_new (fst w)) = None"
    and "lookup (snd (run h window_new (fst w))) (Some bpy_context) ''window'' = Inr (VRef (Some n))"
    and "exposes (snd (run h window_new (fst w))) n [''width'', ''height'', ''x'', ''y'']"
    and "int_or_default (snd (run h window_new (fst w))) orig_win ''width'' 1600 = Some wd"
    and "int_or_default (snd (run h window_new (fst w))) orig_win ''height'' 900 = Some ht"
    and "int_or_default (snd (run h window_new (fst w))) orig_win ''x'' 100 = Some x"
    and "int_or_default (snd (run h window_new (fst w))) orig_win ''y'' 100 = Some y"
    and "\<bar>wd\<bar> < 2 ^ 53" and "\<bar>ht\<bar> < 2 ^ 53"
  shows "\<exists>rest. snd (snd (dual_execute h context w)) =
     snd w @ [Call window_new,
              Write n ''width'' (VInt (max 480 \<lfloor>0.25 * real_of_int wd\<rfloor>)),
              Write n ''height'' (VInt (max 360 \<lfloor>0.25 * real_of_int ht\<rfloor>)),
              Write n ''x'' (VInt (x + 80)),
              Write n ''y'' (VInt (y - 80))] @ rest"
proof -
  let ?hp = "snd (run h window_new (fst w))"
  let ?evs = "[Write n ''width'' (VInt (max 480 \<lfloor>0.25 * real_of_int wd\<rfloor>)),
              Write n ''height'' (VInt (max 360 \<lfloor>0.25 * real_of_int ht\<rfloor>)),
              Write n ''x'' (VInt (x + 80)),
              Write n ''y'' (VInt (y - 80))]"
  have eq: "dual_execute h context w =
      after_window h orig_win (Some n) (?hp, snd w @ [Call window_new])"
    by (rule dual_execute_finished [OF assms(1-3)])
  have "\<exists>rest. snd (snd (size_new_window orig_win (Some n) (?hp, snd w @ [Call window_new]))) =
      snd (?hp, snd w @ [Call window_new]) @ ?evs @ rest"
    using size_new_window_log [OF assms(4-8), of "snd w @ [Call window_new]"] by simp
  from after_window_sizes [OF this, of h] show ?thesis unfolding eq by simp
qed

lemma sim_window_new: "fst (run sim_host window_new sim_heap) = None"
  by code_simp

lemma sim_new_window:
  "lookup (snd (run sim_host window_new sim_heap)) (Some bpy_context) ''window'' = Inr (VRef (Some 2))"
  by code_simp

lemma sim_new_window_exposes:
  "exposes (snd (run sim_host window_new sim_heap)) 2 [''width'', ''height'', ''x'', ''y'']"
  by code_simp

lemma sim_orig_geometry:
  "int_or_default (snd (run sim_host window_new sim_heap)) (Some 1) ''width'' 1600 = Some 2560"
  "int_or_default (snd (run sim_host window_new sim_heap)) (Some 1) ''height'' 900 = Some 1600"
  "int_or_default (snd (run sim_host window_new sim_heap)) (Some 1) ''x'' 100 = Some 40"
  "int_or_default (snd (run sim_host window_new sim_heap)) (Some 1) ''y'' 100 = Some 90"
  by code_simp+

lemma sim_default_geometry:
  "int_or_default (snd (run sim_host window_new sim_heap)) None ''width'' 1600 = Some 1600"
  "int_or_default (snd (run sim_host window_new sim_heap)) None ''height'' 900 = Some 900"
  "int_or_default (snd (run sim_host window_new sim_heap)) None ''x'' 100 = Some 100"
  "int_or_default (snd (run sim_host window_new sim_heap)) None ''y'' 100 = Some 100"
  by (simp_all add: int_or_default_def lookup_def)

theorem window_sizing_witness:
  "(\<exists>rest. snd (snd (dual_execute sim_host 0 (sim_heap, []))) =
      [Call window_new, Write 2 ''width'' (VInt 640), Write 2 ''height'' (VInt 400),
       Write 2 ''x'' (VInt 120), Write 2 ''y'' (VInt 10)] @ rest) \<and>
   (\<exists>rest. snd (snd (dual_execute sim_host 8 (sim_heap, []))) =
      [Call window_new, Write 2 ''width'' (VInt 480), Write 2 ''height'' (VInt 360),
       Write 2 ''x'' (VInt 180), Write 2 ''y'' (VInt 20)] @ rest)"
proof
  have "\<bar>2560::int\<bar> < 2 ^ 53" "\<bar>1600::int\<bar> < 2 ^ 53" by simp_all
  from window_sizing [of 0 "(sim_heap, [])" "Some 1" sim_host 2 2560 1600 40 90]
    sim_context_window sim_window_new sim_new_window sim_new_window_exposes sim_orig_geometry this
  show "\<exists>rest. snd (snd (dual_execute sim_host 0 (sim_heap, []))) =
      [Call window_new, Write 2 ''width'' (VInt 640), Write 2 ''height'' (VInt 400),
       Write 2 ''x'' (VInt 120), Write 2 ''y'' (VInt 10)] @ rest"
    by simp
next
  have "\<bar>1600::int\<bar> < 2 ^ 53" "\<bar>900::int\<bar> < 2 ^ 53" by simp_all
  from window_sizing [of 8 "(sim_heap, [])" None sim_host 2 1600 900 100 100]
    sim_context_no_window sim_window_new sim_new_window sim_new_window_exposes sim_default_geometry this
  show "\<exists>rest. snd (snd (dual_execute sim_host 8 (sim_heap, []))) =
      [Call window_new, Write 2 ''width'' (VInt 480), Write 2 ''height'' (VInt 360),
       Write 2 ''x'' (VInt 180), Write 2 ''y'' (VInt 20)] @ rest"
    by simp
qed

section \<open>Axis presets\<close>

lemma emits_apply_axis_on:
  "emits (\<lambda>e. is_axis_event e \<longrightarrow> axis_on a axis e) (apply_view_axis h win a r axis)"
  unfolding apply_view_axis_def axis_in_override_def axis_legacy_def force_ortho_def
    lock_rotation_def full_override_def override_def
  by (intro em) (auto simp: is_axis_op_def)

lemma emits_configure_axis_on:
  "emits (\<lambda>e. is_axis_event e \<longrightarrow> axis_on a axis e) (configure_silhouette_area h win a r axis)"
  unfolding configure_silhouette_area_def silhouette_styling_def hide_ui_first_def hide_overlays_def
    frame_selected_def hide_ui_def
  by (intro em emits_apply_axis_on) (auto simp: is_axis_op_def)

lemma emits_configure_pair_assigns:
  "emits (axis_assigns tp bt) (configure_pair h win tp rt bt rb)"
  unfolding configure_pair_def
  by (intro em emits_mono [OF emits_apply_axis_on] emits_mono [OF emits_configure_axis_on])
    (auto simp: axis_assigns_def)

lemma emits_deferred_finish_assigns:
  "emits (axis_assigns tp bt) (deferred_finish h win tp rt bt rb)"
  unfolding deferred_finish_def
  by (intro em emits_configure_pair_assigns emits_hide_ui emits_distance_backoff)
    (auto simp: axis_assigns_def)

lemma emits_split_configure_assigns:
  "emits (axis_assigns tp bt) (split_configure h win tp bt)"
  unfolding split_configure_def cancel_def
  by (intro em emits_configure_pair_assigns) (auto simp: axis_assigns_def)


lemma call_log: "snd (snd (call h c w)) = snd w @ [Call c]"
  by (simp add: call_def split: prod.splits option.splits)

lemma axis_in_override_calls:
  assumes "map_of kw ''area'' = Some (VRef (Some a))"
  shows "\<exists>evs. snd (snd (axis_in_override h kw axis w)) = snd w @ evs \<and> list_ex (axis_on a axis) evs"
proof -
  let ?c = "Op ''view3d.viewnumpad'' (Temp kw) [(''type'', VStr axis), (''align_active'', VBool False)]"
  define rest where "rest = try_except
          (call h (Op ''view3d.view_axis'' (Temp kw) [(''type'', VStr axis), (''align_active'', VBool False)]))
          (call h (Op ''view3d.view_axis'' (Temp kw) [(''type'', VStr axis)]))"
  have r: "emits (\<lambda>e. True) rest" unfolding rest_def by (intro em) simp_all
  obtain e2 where e2: "snd (snd (rest (snd (call h ?c w)))) = snd (snd (call h ?c w)) @ e2"
    using emitsD [OF r] by blast
  have "snd (snd (axis_in_override h kw axis w)) = snd w @ [Call ?c] \<or>
        snd (snd (axis_in_override h kw axis w)) = snd w @ [Call ?c] @ e2"
  proof -
    obtain r hp where c: "call h ?c w = (r, hp, snd w @ [Call ?c])"
      using call_log [of h ?c w] by (metis prod.collapse)
    show ?thesis
      unfolding axis_in_override_def rest_def [symmetric]
      using e2 c by (cases r) (auto simp: try_except_app)
  qed
  moreover have "axis_on a axis (Call ?c)" using assms by (simp add: is_axis_op_def)
  ultimately show ?thesis by auto
qed

lemma axis_legacy_calls:
  assumes "map_of kw ''area'' = Some (VRef (Some a))"
  shows "\<exists>evs. snd (snd (axis_legacy h kw axis w)) = snd w @ evs \<and> list_ex (axis_on a axis) evs"
proof -
  let ?c = "Op ''view3d.viewnumpad'' (Legacy kw) [(''type'', VStr axis), (''align_active'', VBool False)]"
  define rest where "rest = try_except
          (call h (Op ''view3d.view_axis'' (Legacy kw) [(''type'', VStr axis), (''align_active'', VBool False)]))
          (try_pass (call h (Op ''view3d.view_axis'' (Legacy kw) [(''type'', VStr axis)])))"
  have r: "emits (\<lambda>e. True) rest" unfolding rest_def by (intro em) simp_all
  obtain e2 where e2: "snd (snd (rest (snd (call h ?c w)))) = snd (snd (call h ?c w)) @ e2"
    using emitsD [OF r] by blast
  have "snd (snd (axis_legacy h kw axis w)) = snd w @ [Call ?c] \<or>
        snd (snd (axis_legacy h kw axis w)) = snd w @ [Call ?c] @ e2"
  proof -
    obtain r hp where c: "call h ?c w = (r, hp, snd w @ [Call ?c])"
      using call_log [of h ?c w] by (metis prod.collapse)
    show ?thesis
      unfolding axis_legacy_def rest_def [symmetric]
      using e2 c by (cases r) (auto simp: try_except_app)
  qed
  moreover have "axis_on a axis (Call ?c)" using assms by (simp add: is_axis_op_def)
  ultimately show ?thesis by auto
qed

text \<open>Running \<open>n\<close> after \<open>m\<close>, whatever \<open>m\<close> returned, keeps what \<open>n\<close> is known to emit.\<close>

lemma emits_true: "emits (\<lambda>e. True) m \<Longrightarrow> \<exists>evs. snd (snd (m w)) = snd w @ evs"
  using emitsD by blast

lemma with_override_body_calls:
  assumes body: "\<And>w. \<exists>evs. snd (snd (body w)) = snd w @ evs \<and> list_ex Q evs"
    and ok: "fst (with_override h kw body w) = Inr x"
  shows "\<exists>evs. snd (snd (with_override h kw body w)) = snd w @ evs \<and> list_ex Q evs"
proof -
  let ?w1 = "snd (call h (OverrideEnter kw) w)"
  have enter: "fst (call h (OverrideEnter kw) w) = Inr ()"
    using ok unfolding with_override_def
    by (cases "call h (OverrideEnter kw) w") (auto simp: seq_app split: sum.splits)
  obtain e1 where e1: "snd (snd (body ?w1)) = snd ?w1 @ e1" "list_ex Q e1" using body by blast
  have "snd (snd (with_override h kw body w)) = snd (snd (body ?w1)) @ [Call (OverrideExit kw)]"
    unfolding with_override_def using enter
    by (cases "call h (OverrideEnter kw) w"; cases "body ?w1")
      (auto simp: seq_app call_def split: sum.splits prod.splits option.splits)
  then show ?thesis using e1 by (simp add: call_log)
qed


lemma emits_with_override_true:
  "emits (\<lambda>e. True) body \<Longrightarrow> emits (\<lambda>e. True) (with_override h kw body)"
  by (rule emits_with_override) simp_all

lemma axis_attempt_calls:
  "\<exists>evs. snd (snd (try_except
       (bind (getattr_default win ''screen'' (VRef None))
          (\<lambda>screen. with_override h (full_override win screen a r)
             (axis_in_override h (full_override win screen a r) axis)))
       (axis_legacy h (override None (Some a) (Some r)) axis) w)) = snd w @ evs \<and>
     list_ex (axis_on a axis) evs"
proof -
  let ?A = "bind (getattr_default win ''screen'' (VRef None))
          (\<lambda>screen. with_override h (full_override win screen a r)
             (axis_in_override h (full_override win screen a r) axis))"
  let ?L = "axis_legacy h (override None (Some a) (Some r)) axis"
  have area: "\<And>sc. map_of (full_override win sc a r) ''area'' = Some (VRef (Some a))"
    by (simp add: full_override_def)
  have area': "map_of (override None (Some a) (Some r)) ''area'' = Some (VRef (Some a))"
    by (simp add: override_def)
  have A: "emits (\<lambda>e. True) ?A"
    by (intro em emits_with_override_true emits_axis_in_override) simp_all
  obtain res w1 where Aw: "?A w = (res, w1)" by (cases "?A w") auto
  obtain e0 where e0: "snd w1 = snd w @ e0" using emits_true [OF A, of w] Aw by auto
  show ?thesis
  proof (cases res)
    case (Inl e)
    then have "try_except ?A ?L w = ?L w1" using Aw by (simp add: try_except_app)
    moreover obtain e1 where "snd (snd (?L w1)) = snd w1 @ e1" "list_ex (axis_on a axis) e1"
      using axis_legacy_calls [OF area'] by blast
    ultimately show ?thesis using e0 by (intro exI [of _ "e0 @ e1"]) simp
  next
    case (Inr x)
    obtain g where g: "getattr_default win ''screen'' (VRef None) w = (g, w)"
      using readonlyD [OF readonly_getattr_default] by blast
    have "\<exists>sc. g = Inr sc" using Aw Inr g by (cases g) (auto simp: bind_app)
    then obtain sc where sc: "g = Inr sc" by blast
    have eq: "?A w = with_override h (full_override win sc a r)
             (axis_in_override h (full_override win sc a r) axis) w"
      using g sc by (simp add: bind_app)
    then have "fst (with_override h (full_override win sc a r)
             (axis_in_override h (full_override win sc a r) axis) w) = Inr x"
      using Aw Inr by (metis fst_conv)
    from with_override_body_calls [OF axis_in_override_calls [OF area], OF this]
    obtain e1 where "snd (snd (?A w)) = snd w @ e1" "list_ex (axis_on a axis) e1"
      using eq by auto
    moreover have "try_except ?A ?L w = ?A w" using Aw Inr by (simp add: try_except_app)
    ultimately show ?thesis by auto
  qed
qed

lemma apply_view_axis_ok: "fst (apply_view_axis h win a r axis w) = Inr ()"
  unfolding apply_view_axis_def force_ortho_def lock_rotation_def axis_legacy_def
  by (auto simp: seq_app try_pass_app try_except_app split: prod.splits sum.splits)

lemma apply_view_axis_calls:
  "\<exists>evs. snd (snd (apply_view_axis h win a r axis w)) = snd w @ evs \<and>
     list_ex (axis_on a axis) evs"
proof -
  let ?mid = "try_except
       (bind (getattr_default win ''screen'' (VRef None))
          (\<lambda>screen. with_override h (full_override win screen a r)
             (axis_in_override h (full_override win screen a r) axis)))
       (axis_legacy h (override None (Some a) (Some r)) axis)"
  let ?w1 = "snd (force_ortho a w)"
  let ?w2 = "snd (?mid ?w1)"
  have f: "emits (\<lambda>e. True) (force_ortho a)" by (rule emits_force_ortho) simp
  have l: "emits (\<lambda>e. True) (lock_rotation a)" by (rule emits_lock_rotation) simp
  obtain e1 where e1: "snd ?w1 = snd w @ e1" using emits_true [OF f] by blast
  obtain e2 where e2: "snd ?w2 = snd ?w1 @ e2" "list_ex (axis_on a axis) e2"
    using axis_attempt_calls by blast
  have "snd (snd (apply_view_axis h win a r axis w)) = snd ?w2 \<or>
      snd (snd (apply_view_axis h win a r axis w)) = snd (snd (lock_rotation a ?w2))"
    unfolding apply_view_axis_def
    by (auto simp: seq_app force_ortho_def [unfolded try_pass_def, folded try_pass_def] try_pass_app
        split: prod.splits sum.splits)
  moreover obtain e3 where "snd (snd (lock_rotation a ?w2)) = snd ?w2 @ e3"
    using emits_true [OF l] by blast
  ultimately show ?thesis using e1 e2 by auto
qed

section \<open>Successful runs of the deferred setup\<close>

lemma get_int_area_y:
  "get_int (Some a) ''y'' w = (Inr y, w') \<Longrightarrow> area_y (fst w) a = Some y"
  by (auto simp: get_int_def getattr_def bind_app as_int_def area_y_def
      split: sum.splits val.splits)

lemma not_in_Cons: "not_in after before = x # xs \<Longrightarrow> x \<notin> set before"
  unfolding not_in_def by (metis filter_eq_ConsD)

lemma bind_success:
  assumes "fst (bind m f w) = Inr y"
  shows "\<exists>x. fst (m w) = Inr x \<and> bind m f w = f x (snd (m w))"
  using assms by (cases "m w"; cases "fst (m w)") (auto simp: bind_app)

lemma bind_ro_success:
  assumes "readonly m" and "fst (bind m f w) = Inr y"
  shows "\<exists>x. m w = (Inr x, w) \<and> bind m f w = f x w"
  using bind_success [OF assms(2)] readonlyD [OF assms(1), of w] by auto

lemma deferred_body_success:
  assumes "fst (deferred_setup_body h nw w) = Inr None"
  shows "\<exists>a r tp rt bt rb yt yb.
     deferred_setup_body h nw w =
       seq (deferred_finish h nw tp rt bt rb) (ret None) (snd (deferred_split h nw a r w)) \<and>
     area_y (fst (snd (deferred_split h nw a r w))) tp = Some yt \<and>
     area_y (fst (snd (deferred_split h nw a r w))) bt = Some yb \<and>
     yb \<le> yt \<and> tp \<noteq> bt \<and>
     fst (find_window_view3d_area nw w) = Inr (Some a, Some r) \<and> (tp = a \<or> bt = a)"
proof -
  obtain fa fr where f: "find_window_view3d_area nw w = (Inr (fa, fr), w)"
    using readonlyD [OF readonly_find, of nw w] assms
    by (cases "fst (find_window_view3d_area nw w)")
      (auto simp: deferred_setup_body_def bind_app split: prod.splits)
  have "fa \<noteq> None \<and> fr \<noteq> None"
    using f assms by (cases fa; cases fr) (auto simp: deferred_setup_body_def bind_app)
  then obtain a r where ar: "fa = Some a" "fr = Some r" by auto
  then have fs: "fst (find_window_view3d_area nw w) = Inr (Some a, Some r)" using f by simp
  let ?K4 = "\<lambda>tp bt. bind (window_region (Some tp))
                (\<lambda>rt. bind (window_region (Some bt))
                   (\<lambda>rb. case (rt, rb) of
                      (Some reg_top, Some reg_bottom) \<Rightarrow>
                        seq (deferred_finish h nw tp reg_top bt reg_bottom) (ret None)
                    | _ \<Rightarrow> ret (Some 0.05)))"
  let ?K3 = "\<lambda>new_area. bind (get_int (Some a) ''y'')
                       (\<lambda>ya. bind (get_int (Some new_area) ''y'')
                          (\<lambda>yn. ?K4 (if yn \<le> ya then a else new_area)
                                     (if yn \<le> ya then new_area else a)))"
  let ?K2 = "\<lambda>before after. case not_in after before of
                   [] \<Rightarrow> ret (Some 0.05)
                 | new_area # _ \<Rightarrow> ?K3 new_area"
  let ?K1 = "\<lambda>before ok. if \<not> ok then ret (Some 0.05)
            else bind (window_areas nw) (?K2 before)"
  obtain before where b: "a \<in> set before"
    and eq: "deferred_setup_body h nw w = bind (deferred_split h nw a r) (?K1 before) w"
    using deferred_after_find [OF fs, of h] unfolding Let_def by blast
  let ?ws = "snd (deferred_split h nw a r w)"
  obtain ok where ok: "fst (deferred_split h nw a r w) = Inr ok"
    and e1: "deferred_setup_body h nw w = ?K1 before ok ?ws"
    using bind_success [of "deferred_split h nw a r" "?K1 before" w None] assms eq by auto
  have ok_True: ok using assms e1 by (cases ok) auto
  then have e1': "deferred_setup_body h nw w = bind (window_areas nw) (?K2 before) ?ws"
    using e1 by simp
  obtain after where e2: "deferred_setup_body h nw w = ?K2 before after ?ws"
    using bind_ro_success [OF readonly_window_areas, of nw "?K2 before" ?ws None] assms e1' by auto
  obtain new_area rest where na: "not_in after before = new_area # rest"
    using assms e2 by (cases "not_in after before") auto
  then have e3: "deferred_setup_body h nw w = ?K3 new_area ?ws" using e2 by simp
  have new: "new_area \<notin> set before" using na by (rule not_in_Cons)
  obtain ya where ya: "get_int (Some a) ''y'' ?ws = (Inr ya, ?ws)"
    and e4: "deferred_setup_body h nw w = bind (get_int (Some new_area) ''y'')
                          (\<lambda>yn. ?K4 (if yn \<le> ya then a else new_area)
                                     (if yn \<le> ya then new_area else a)) ?ws"
    using bind_ro_success [OF readonly_get_int, of "Some a" "''y''" _ ?ws None] assms e3 by auto
  obtain yn where yn: "get_int (Some new_area) ''y'' ?ws = (Inr yn, ?ws)"
    and e5: "deferred_setup_body h nw w = ?K4 (if yn \<le> ya then a else new_area)
                                     (if yn \<le> ya then new_area else a) ?ws"
    using bind_ro_success [OF readonly_get_int, of "Some new_area" "''y''" _ ?ws None] assms e4 by auto
  define tp where "tp = (if yn \<le> ya then a else new_area)"
  define bt where "bt = (if yn \<le> ya then new_area else a)"
  have e5': "deferred_setup_body h nw w = ?K4 tp bt ?ws" unfolding tp_def bt_def by (rule e5)
  obtain rt where e6: "deferred_setup_body h nw w = bind (window_region (Some bt))
                   (\<lambda>rb. case (rt, rb) of
                      (Some reg_top, Some reg_bottom) \<Rightarrow>
                        seq (deferred_finish h nw tp reg_top bt reg_bottom) (ret None)
                    | _ \<Rightarrow> ret (Some 0.05)) ?ws"
    using bind_ro_success [OF readonly_window_region, of "Some tp" _ ?ws None] assms e5' by auto
  obtain rb where e7: "deferred_setup_body h nw w = (case (rt, rb) of
                      (Some reg_top, Some reg_bottom) \<Rightarrow>
                        seq (deferred_finish h nw tp reg_top bt reg_bottom) (ret None)
                    | _ \<Rightarrow> ret (Some 0.05)) ?ws"
    using bind_ro_success [OF readonly_window_region, of "Some bt" _ ?ws None] assms e6 by auto
  obtain reg_top reg_bottom where rr: "rt = Some reg_top" "rb = Some reg_bottom"
    using assms e7 by (cases rt; cases rb) auto
  have e8: "deferred_setup_body h nw w =
      seq (deferred_finish h nw tp reg_top bt reg_bottom) (ret None) ?ws"
    using e7 rr by simp
  have yt: "area_y (fst ?ws) tp = Some (if yn \<le> ya then ya else yn)"
    using get_int_area_y [OF ya] get_int_area_y [OF yn] by (simp add: tp_def)
  have yb: "area_y (fst ?ws) bt = Some (if yn \<le> ya then yn else ya)"
    using get_int_area_y [OF ya] get_int_area_y [OF yn] by (simp add: bt_def)
  have "tp \<noteq> bt" using b new by (auto simp: tp_def bt_def)
  moreover have "(if yn \<le> ya then yn else ya) \<le> (if yn \<le> ya then ya else yn)" by simp
  moreover have "tp = a \<or> bt = a" by (simp add: tp_def bt_def)
  ultimately show ?thesis using e8 yt yb fs by blast
qed

section \<open>Successful runs of the split operator\<close>

lemma mapM_inv:
  assumes f: "\<And>a w r w'. f a w = (Inr r, w') \<Longrightarrow> snd r = a \<and> P (fst w) r \<and> w' = w"
    and "mapM f xs w = (Inr rs, w')"
  shows "map snd rs = xs \<and> list_all (P (fst w)) rs \<and> w' = w"
  using assms(2)
proof (induction xs arbitrary: rs w')
  case Nil
  then show ?case by simp
next
  case (Cons x xs)
  obtain r w1 where 1: "f x w = (Inr r, w1)"
    using Cons.prems by (cases "f x w"; cases "fst (f x w)") (auto simp: bind_app)
  then have r: "snd r = x" "P (fst w) r" "w1 = w" using f by blast+
  obtain rs' w2 where 2: "mapM f xs w = (Inr rs', w2)"
    using Cons.prems 1 r by (cases "mapM f xs w"; cases "fst (mapM f xs w)") (auto simp: bind_app)
  from Cons.IH [OF 2] have ih: "map snd rs' = xs" "list_all (P (fst w)) rs'" "w2 = w" by auto
  have "rs = r # rs'" "w' = w" using Cons.prems 1 2 r ih by (auto simp: bind_app)
  then show ?case using r ih by simp
qed

lemma keyed_by_y_inv:
  assumes "keyed_by_y xs w = (Inr keyed, w')"
  shows "map snd keyed = xs \<and> list_all (\<lambda>p. area_y (fst w) (snd p) = Some (fst p)) keyed \<and> w' = w"
proof (rule mapM_inv [where P = "\<lambda>hp p. area_y hp (snd p) = Some (fst p)",
      OF _ assms [unfolded keyed_by_y_def]])
  fix a w r w'
  assume "bind (get_int (Some a) ''y'') (\<lambda>k. ret (k, a)) w = (Inr r, w')"
  then show "snd r = a \<and> area_y (fst w) (snd r) = Some (fst r) \<and> w' = w"
    using readonlyD [OF readonly_get_int, of "Some a" "''y''" w]
    by (cases "fst (get_int (Some a) ''y'' w)")
      (auto simp: bind_app split: prod.splits dest: get_int_area_y)
qed

lemma keyed_by_x_inv:
  assumes "keyed_by_x xs w = (Inr keyed, w')"
  shows "map snd keyed = xs \<and> w' = w"
proof -
  have "map snd keyed = xs \<and> list_all (\<lambda>p. True) keyed \<and> w' = w"
  proof (rule mapM_inv [where P = "\<lambda>hp p. True", OF _ assms [unfolded keyed_by_x_def]])
    fix a w r w'
    assume "bind (get_int (Some a) ''x'') (\<lambda>k. ret (k, a)) w = (Inr r, w')"
    then show "snd r = a \<and> True \<and> w' = w"
      using readonlyD [OF readonly_get_int, of "Some a" "''x''" w]
      by (cases "fst (get_int (Some a) ''x'' w)") (auto simp: bind_app split: prod.splits)
  qed
  then show ?thesis by simp
qed

lemma keyed_by_proximity_inv:
  assumes "keyed_by_proximity l xs w = (Inr keyed, w')"
  shows "map snd keyed = xs \<and> w' = w"
proof -
  have "map snd keyed = xs \<and> list_all (\<lambda>p. True) keyed \<and> w' = w"
  proof (rule mapM_inv [where P = "\<lambda>hp p. True", OF _ assms [unfolded keyed_by_proximity_def]])
    fix a w r w'
    assume "bind (get_int (Some a) ''x'')
          (\<lambda>ax. bind (get_int (Some l) ''x'')
             (\<lambda>lx. bind (get_int (Some a) ''y'') (\<lambda>ay. ret ((abs (ax - lx), - ay), a)))) w = (Inr r, w')"
    then show "snd r = a \<and> True \<and> w' = w"
      by (auto simp: bind_app split: prod.splits sum.splits dest!: ro_eq [OF readonly_get_int])
  qed
  then show ?thesis by simp
qed

lemma filter_type_inv:
  "filter_type t xs w = (Inr ys, w') \<Longrightarrow>
   w' = w \<and> set ys \<subseteq> set xs \<and> (distinct xs \<longrightarrow> distinct ys) \<and>
   list_all (\<lambda>a. lookup (fst w) (Some a) ''type'' = Inr (VStr t)) ys"
proof (induction xs arbitrary: ys w')
  case Nil
  then show ?case by simp
next
  case (Cons x xs)
  obtain v where v: "getattr (Some x) ''type'' w = (Inr v, w)"
    using Cons.prems readonlyD [OF readonly_getattr, of "Some x" "''type''" w]
    by (cases "fst (getattr (Some x) ''type'' w)") (auto simp: bind_app)
  obtain rest w1 where r: "filter_type t xs w = (Inr rest, w1)"
    using Cons.prems v by (cases "filter_type t xs w"; cases "fst (filter_type t xs w)") (auto simp: bind_app)
  from Cons.IH [OF r] have ih: "w1 = w" "set rest \<subseteq> set xs" "distinct xs \<longrightarrow> distinct rest"
    "list_all (\<lambda>a. lookup (fst w) (Some a) ''type'' = Inr (VStr t)) rest" by auto
  have ys: "ys = (if v = VStr t then x # rest else rest)" "w' = w"
    using Cons.prems v r ih by (auto simp: bind_app)
  have "v = VStr t \<Longrightarrow> lookup (fst w) (Some x) ''type'' = Inr (VStr t)"
    using v by (simp add: getattr_def)
  then show ?case using ys ih by auto
qed

lemma sorted_by_desc_pair:
  assumes "sorted_by_desc keyed = [tp, bt]"
  shows "\<exists>kt kb. (kt, tp) \<in> set keyed \<and> (kb, bt) \<in> set keyed \<and> kb \<le> kt"
proof -
  let ?ps = "sort_key (\<lambda>p. - fst p) keyed"
  have m: "map snd ?ps = [tp, bt]" using assms by (simp add: sorted_by_desc_def)
  then obtain p1 p2 where ps: "?ps = [p1, p2]" "snd p1 = tp" "snd p2 = bt"
    by (cases ?ps; cases "tl ?ps") auto
  have "sorted (map (\<lambda>p. - fst p) ?ps)" by (rule sorted_sort_key)
  then have "fst p2 \<le> fst p1" using ps by simp
  moreover have "set ?ps = set keyed" by simp
  then have "p1 \<in> set keyed" "p2 \<in> set keyed" using ps by auto
  ultimately show ?thesis using ps by (metis prod.collapse)
qed

lemma sorted_by_desc_distinct:
  "distinct (map snd keyed) \<Longrightarrow> distinct (sorted_by_desc keyed)"
  unfolding sorted_by_desc_def
  by (metis distinct_map distinct_sort set_sort)

lemma sorted_by_distinct:
  "distinct (map snd keyed) \<Longrightarrow> distinct (sorted_by keyed)"
  unfolding sorted_by_def
  by (metis distinct_map distinct_sort set_sort)

lemma set_sorted_by [simp]: "set (sorted_by keyed) = snd ` set keyed"
  by (simp add: sorted_by_def)

lemma set_sorted_by_desc [simp]: "set (sorted_by_desc keyed) = snd ` set keyed"
  by (simp add: sorted_by_desc_def)

lemma length_sorted_by [simp]: "length (sorted_by keyed) = length keyed"
  by (simp add: sorted_by_def)

lemma max_by_key_mem: "max_by_key b xs \<in> snd ` set (b # xs)"
  by (induction xs arbitrary: b) (auto split: if_splits)

lemma readonly_mapM [ro]: "(\<And>a. readonly (f a)) \<Longrightarrow> readonly (mapM f xs)"
  by (induction xs) (auto intro!: ro)

lemma readonly_keyed_by_x [ro]: "readonly (keyed_by_x xs)"
  unfolding keyed_by_x_def by (intro ro)

lemma readonly_keyed_by_y [ro]: "readonly (keyed_by_y xs)"
  unfolding keyed_by_y_def by (intro ro)

lemma readonly_keyed_by_proximity [ro]: "readonly (keyed_by_proximity l xs)"
  unfolding keyed_by_proximity_def by (intro ro)

lemma readonly_filter_type [ro]: "readonly (filter_type t xs)"
  by (induction xs) (auto intro!: ro)

lemma readonly_if [ro]: "readonly a \<Longrightarrow> readonly b \<Longrightarrow> readonly (if c then a else b)"
  by simp

lemma readonly_pick_left_right [ro]: "readonly (pick_left_right area new_areas)"
  unfolding pick_left_right_def Let_def by (intro ro)

lemma readonly_pick_left_subs [ro]: "readonly (pick_left_subs l xs)"
  unfolding pick_left_subs_def by (intro ro)

lemma readonly_order_top_bottom [ro]: "readonly (order_top_bottom xs)"
  unfolding order_top_bottom_def by (intro ro)

lemma pick_left_right_mem:
  assumes "pick_left_right area new_areas w = (Inr (l, r), w')" and "new_areas \<noteq> []"
  shows "l \<in> set (area # new_areas)"
proof -
  obtain keyed where k: "keyed_by_x new_areas w = (Inr keyed, w)"
    using assms(1) readonlyD [OF readonly_keyed_by_x, of new_areas w]
    by (cases "fst (keyed_by_x new_areas w)") (auto simp: pick_left_right_def bind_app)
  have ks: "map snd keyed = new_areas" using keyed_by_x_inv [OF k] by simp
  then have "keyed \<noteq> []" using assms(2) by auto
  then have "max_by_key (hd keyed) (tl keyed) \<in> snd ` set keyed"
    using max_by_key_mem [of "hd keyed" "tl keyed"] by simp
  then have ar: "max_by_key (hd keyed) (tl keyed) \<in> set new_areas"
    using ks by (metis set_map)
  have "l \<in> set (area # new_areas) \<or>
      (\<exists>keyed'. keyed_by_x (area # new_areas) w = (Inr keyed', w) \<and> l = hd (sorted_by keyed'))"
    using assms(1) ar unfolding pick_left_right_def Let_def
    by (auto simp: bind_app k split: prod.splits sum.splits if_splits
        dest!: ro_eq [OF readonly_get_int] dest: ro_eq [OF readonly_keyed_by_x])
  then show ?thesis
  proof
    assume "\<exists>keyed'. keyed_by_x (area # new_areas) w = (Inr keyed', w) \<and> l = hd (sorted_by keyed')"
    then obtain keyed' where k': "keyed_by_x (area # new_areas) w = (Inr keyed', w)"
      and l: "l = hd (sorted_by keyed')" by blast
    have m: "map snd keyed' = area # new_areas" using keyed_by_x_inv [OF k'] by simp
    then have "sorted_by keyed' \<noteq> []" by (metis length_0_conv length_sorted_by list.simps(3) map_is_Nil_conv)
    then have "l \<in> set (sorted_by keyed')" unfolding l by (rule hd_in_set)
    then show ?thesis using m by (metis set_sorted_by set_map)
  qed simp
qed


lemma cancel_result: "fst (cancel msg w) = Inr (CANCELLED, None)"
  by (simp add: cancel_def seq_app report_def)

lemma cancel_not_finished [simp]: "fst (cancel msg w) \<noteq> Inr (FINISHED, c)"
  by (simp add: cancel_result)

lemma split_configure_success:
  assumes "fst (split_configure h win tp bt ws) = Inr (FINISHED, c)"
  shows "\<exists>rt rb. c = Some (win, tp, rt, bt, rb) \<and>
     split_configure h win tp bt ws =
       seq (configure_pair h win tp rt bt rb)
         (seq (try_pass (call h (TimerRegister ''_post_fix'' 0.05)))
            (ret (FINISHED, Some (win, tp, rt, bt, rb)))) ws"
proof -
  let ?K = "\<lambda>rt rb. case (rt, rb) of
             (Some reg_top, Some reg_bottom) \<Rightarrow>
               seq (configure_pair h win tp reg_top bt reg_bottom)
                 (seq (try_pass (call h (TimerRegister ''_post_fix'' 0.05)))
                    (ret (FINISHED, Some (win, tp, reg_top, bt, reg_bottom))))
           | _ \<Rightarrow> cancel ''Could not get WINDOW regions for left sub-areas.''"
  obtain rt where 1: "split_configure h win tp bt ws = bind (window_region (Some bt)) (?K rt) ws"
    using bind_ro_success [OF readonly_window_region, of "Some tp" _ ws "(FINISHED, c)"] assms
    unfolding split_configure_def by auto
  obtain rb where 2: "split_configure h win tp bt ws = ?K rt rb ws"
    using bind_ro_success [OF readonly_window_region, of "Some bt" "?K rt" ws "(FINISHED, c)"] assms 1
    by auto
  obtain reg_top reg_bottom where rr: "rt = Some reg_top" "rb = Some reg_bottom"
    using assms 2 by (cases rt; cases rb) auto
  have 3: "split_configure h win tp bt ws =
       seq (configure_pair h win tp reg_top bt reg_bottom)
         (seq (try_pass (call h (TimerRegister ''_post_fix'' 0.05)))
            (ret (FINISHED, Some (win, tp, reg_top, bt, reg_bottom)))) ws"
    using 2 rr by simp
  then have "c = Some (win, tp, reg_top, bt, reg_bottom)"
    using assms by (auto simp: seq_app try_pass_app split: prod.splits sum.splits)
  then show ?thesis using 3 by blast
qed


lemma pick_left_subs_inv:
  assumes "pick_left_subs l xs w = (Inr subs, w')"
  shows "set subs \<subseteq> set (xs @ [l]) \<and> (distinct (xs @ [l]) \<longrightarrow> distinct subs) \<and>
     list_all (\<lambda>a. lookup (fst w) (Some a) ''type'' = Inr (VStr ''VIEW_3D'')) subs"
proof -
  obtain cands where c: "filter_type ''VIEW_3D'' (xs @ [l]) w = (Inr cands, w)"
    using assms readonlyD [OF readonly_filter_type, of "''VIEW_3D''" "xs @ [l]" w]
    by (cases "fst (filter_type ''VIEW_3D'' (xs @ [l]) w)") (auto simp: pick_left_subs_def bind_app)
  obtain keyed where k: "keyed_by_proximity l cands w = (Inr keyed, w)"
    and subs: "subs = take 2 (sorted_by keyed)"
    using assms c readonlyD [OF readonly_keyed_by_proximity, of l cands w]
    by (cases "fst (keyed_by_proximity l cands w)") (auto simp: pick_left_subs_def bind_app)
  have ci: "set cands \<subseteq> set (xs @ [l])" "distinct (xs @ [l]) \<longrightarrow> distinct cands"
    "list_all (\<lambda>a. lookup (fst w) (Some a) ''type'' = Inr (VStr ''VIEW_3D'')) cands"
    using filter_type_inv [OF c] by auto
  have m: "map snd keyed = cands" using keyed_by_proximity_inv [OF k] by simp
  have s1: "set subs \<subseteq> set cands"
    unfolding subs using m set_take_subset [of 2 "sorted_by keyed"] by (metis set_sorted_by set_map)
  have s2: "distinct cands \<Longrightarrow> distinct subs"
    unfolding subs using m sorted_by_distinct [of keyed] by simp
  show ?thesis using s1 s2 ci by (auto simp: list_all_iff)
qed

lemma order_top_bottom_inv:
  assumes "order_top_bottom subs w = (Inr [tp, bt], w')"
  shows "\<exists>yt yb. area_y (fst w) tp = Some yt \<and> area_y (fst w) bt = Some yb \<and> yb \<le> yt \<and>
     tp \<in> set subs \<and> bt \<in> set subs \<and> (distinct subs \<longrightarrow> tp \<noteq> bt)"
proof -
  obtain keyed where k: "keyed_by_y subs w = (Inr keyed, w)" and tb: "sorted_by_desc keyed = [tp, bt]"
    using assms readonlyD [OF readonly_keyed_by_y, of subs w]
    by (cases "fst (keyed_by_y subs w)") (auto simp: order_top_bottom_def bind_app)
  have inv: "map snd keyed = subs" "list_all (\<lambda>p. area_y (fst w) (snd p) = Some (fst p)) keyed"
    using keyed_by_y_inv [OF k] by auto
  obtain kt kb where kk: "(kt, tp) \<in> set keyed" "(kb, bt) \<in> set keyed" "kb \<le> kt"
    using sorted_by_desc_pair [OF tb] by blast
  have y: "area_y (fst w) tp = Some kt" "area_y (fst w) bt = Some kb"
    using kk inv(2) by (auto simp: list_all_iff)
  have mem: "tp \<in> set subs" "bt \<in> set subs" using kk inv(1) by force+
  have "distinct subs \<Longrightarrow> tp \<noteq> bt"
    using sorted_by_desc_distinct [of keyed] tb inv(1) by auto
  then show ?thesis using y kk(3) mem by blast
qed

lemma not_in_distinct: "distinct after \<Longrightarrow> distinct (not_in after before)"
  by (simp add: not_in_def)

lemma not_in_disjoint: "x \<in> set before \<Longrightarrow> x \<notin> set (not_in after before)"
  by (simp add: not_in_def)

lemma not_in_subset: "set (not_in after before) \<subseteq> set after"
  by (auto simp: not_in_def)

lemma split_after_vertical_success:
  assumes "fst (split_after_vertical h win scr area before w1) = Inr (FINISHED, c)"
  shows "\<exists>area_left tp bt yt yb after after2.
     split_after_vertical h win scr area before w1 =
       split_configure h win tp bt (snd (split_left h area_left w1)) \<and>
     area_y (fst (snd (split_left h area_left w1))) tp = Some yt \<and>
     area_y (fst (snd (split_left h area_left w1))) bt = Some yb \<and>
     yb \<le> yt \<and>
     fst (get_refs scr ''areas'' w1) = Inr after \<and>
     fst (get_refs scr ''areas'' (snd (split_left h area_left w1))) = Inr after2 \<and>
     (distinct after2 \<and> area \<in> set after \<longrightarrow> tp \<noteq> bt) \<and>
     lookup (fst (snd (split_left h area_left w1))) (Some tp) ''type'' = Inr (VStr ''VIEW_3D'') \<and>
     lookup (fst (snd (split_left h area_left w1))) (Some bt) ''type'' = Inr (VStr ''VIEW_3D'')"
proof -
  let ?R = "(FINISHED, c)"
  let ?S = "split_after_vertical h win scr area before w1"
  let ?K5 = "\<lambda>left_subs. if length left_subs < 2
               then cancel ''Left split did not produce two VIEW_3D areas.''
               else bind (order_top_bottom left_subs)
                 (\<lambda>tb. case tb of
                    [left_top, left_bottom] \<Rightarrow> split_configure h win left_top left_bottom
                  | _ \<Rightarrow> throw ValueError)"
  let ?K4 = "\<lambda>area_left before2 after2.
               if not_in after2 before2 = []
               then cancel ''Could not determine sub-areas of left split.''
               else bind (pick_left_subs area_left (not_in after2 before2)) ?K5"
  let ?K3 = "\<lambda>area_left before2 ok2. if \<not> ok2 then ret (CANCELLED, None)
               else bind (get_refs scr ''areas'') (?K4 area_left before2)"
  let ?K2 = "\<lambda>lr. case lr of (area_left, area_right) \<Rightarrow>
               bind (get_refs scr ''areas'')
                 (\<lambda>before2. bind (split_left h area_left) (?K3 area_left before2))"
  let ?K1 = "\<lambda>after. if not_in after before = [] then cancel ''Could not determine new split area.''
               else bind (pick_left_right area (not_in after before)) ?K2"
  have def: "?S = bind (get_refs scr ''areas'') ?K1 w1"
    unfolding split_after_vertical_def Let_def by simp
  obtain after where a: "get_refs scr ''areas'' w1 = (Inr after, w1)" and e1: "?S = ?K1 after w1"
    using bind_ro_success [OF readonly_get_refs, of scr "''areas''" ?K1 w1 ?R] assms def by auto
  have ne: "not_in after before \<noteq> []" using assms e1 by auto
  then have e1': "?S = bind (pick_left_right area (not_in after before)) ?K2 w1" using e1 by simp
  obtain lr where p: "pick_left_right area (not_in after before) w1 = (Inr lr, w1)"
    and e2: "?S = ?K2 lr w1"
    using bind_ro_success [OF readonly_pick_left_right, of area "not_in after before" ?K2 w1 ?R]
      assms e1' by auto
  obtain area_left area_right where lr: "lr = (area_left, area_right)" by (cases lr)
  have lmem: "area_left \<in> set (area # not_in after before)"
    using pick_left_right_mem [OF p [unfolded lr] ne] .
  have e2': "?S = bind (get_refs scr ''areas'')
                 (\<lambda>before2. bind (split_left h area_left) (?K3 area_left before2)) w1"
    using e2 lr by simp
  have e3: "?S = bind (split_left h area_left) (?K3 area_left after) w1"
    using e2' a by (simp add: bind_app)
  let ?ws = "snd (split_left h area_left w1)"
  obtain ok2 where e4: "?S = ?K3 area_left after ok2 ?ws"
    using bind_success [of "split_left h area_left" "?K3 area_left after" w1 ?R] assms e3 by auto
  have ok2 using assms e4 by (cases ok2) auto
  then have e4': "?S = bind (get_refs scr ''areas'') (?K4 area_left after) ?ws" using e4 by simp
  obtain after2 where a2: "get_refs scr ''areas'' ?ws = (Inr after2, ?ws)"
    and e5: "?S = ?K4 area_left after after2 ?ws"
    using bind_ro_success [OF readonly_get_refs, of scr "''areas''" "?K4 area_left after" ?ws ?R]
      assms e4' by auto
  have ne2: "not_in after2 after \<noteq> []" using assms e5 by auto
  then have e5': "?S = bind (pick_left_subs area_left (not_in after2 after)) ?K5 ?ws" using e5 by simp
  obtain subs where ps: "pick_left_subs area_left (not_in after2 after) ?ws = (Inr subs, ?ws)"
    and e6: "?S = ?K5 subs ?ws"
    using bind_ro_success [OF readonly_pick_left_subs, of area_left "not_in after2 after" ?K5 ?ws ?R]
      assms e5' by auto
  have len: "\<not> length subs < 2" using assms e6 by auto
  then have e6': "?S = bind (order_top_bottom subs)
                 (\<lambda>tb. case tb of
                    [left_top, left_bottom] \<Rightarrow> split_configure h win left_top left_bottom
                  | _ \<Rightarrow> throw ValueError) ?ws" using e6 by simp
  obtain tb where ot: "order_top_bottom subs ?ws = (Inr tb, ?ws)"
    and e7: "?S = (case tb of
                    [left_top, left_bottom] \<Rightarrow> split_configure h win left_top left_bottom
                  | _ \<Rightarrow> throw ValueError) ?ws"
    using bind_ro_success [OF readonly_order_top_bottom, of subs _ ?ws ?R] assms e6' by auto
  obtain tp bt where tb: "tb = [tp, bt]"
    using assms e7 by (cases tb; cases "tl tb"; cases "tl (tl tb)") auto
  have e8: "?S = split_configure h win tp bt ?ws" using e7 tb by simp
  obtain yt yb where y: "area_y (fst ?ws) tp = Some yt" "area_y (fst ?ws) bt = Some yb" "yb \<le> yt"
    and mem: "tp \<in> set subs" "bt \<in> set subs" and d: "distinct subs \<longrightarrow> tp \<noteq> bt"
    using order_top_bottom_inv [OF ot [unfolded tb]] by blast
  have si: "distinct (not_in after2 after @ [area_left]) \<longrightarrow> distinct subs"
    "list_all (\<lambda>a. lookup (fst ?ws) (Some a) ''type'' = Inr (VStr ''VIEW_3D'')) subs"
    using pick_left_subs_inv [OF ps] by auto
  have ty: "lookup (fst ?ws) (Some tp) ''type'' = Inr (VStr ''VIEW_3D'')"
    "lookup (fst ?ws) (Some bt) ''type'' = Inr (VStr ''VIEW_3D'')"
    using si(2) mem by (auto simp: list_all_iff)
  have imp: "distinct after2 \<and> area \<in> set after \<longrightarrow> tp \<noteq> bt"
  proof
    assume h: "distinct after2 \<and> area \<in> set after"
    have "area_left \<in> set after" using lmem h not_in_subset [of after before] by auto
    then have "area_left \<notin> set (not_in after2 after)" by (rule not_in_disjoint)
    then have "distinct (not_in after2 after @ [area_left])"
      using h by (simp add: not_in_distinct)
    then show "tp \<noteq> bt" using si(1) d by blast
  qed
  show ?thesis
    by (rule exI [of _ area_left], rule exI [of _ tp], rule exI [of _ bt], rule exI [of _ yt],
        rule exI [of _ yb], rule exI [of _ after], rule exI [of _ after2])
      (use e8 y a a2 ty imp in simp)
qed


lemma seq_success:
  assumes "fst (seq m n w) = Inr y"
  shows "fst (m w) = Inr () \<and> seq m n w = n (snd (m w))"
  using assms by (cases "m w"; cases "fst (m w)") (auto simp: seq_app)

lemma configure_pair_calls:
  assumes "fst (configure_pair h win tp rt bt rb w) = Inr ()"
  shows "\<exists>evs. snd (snd (configure_pair h win tp rt bt rb w)) = snd w @ evs \<and>
     list_all (axis_assigns tp bt) evs \<and>
     list_ex (axis_on tp ''FRONT'') evs \<and> list_ex (axis_on bt ''RIGHT'') evs"
proof -
  let ?c1 = "configure_silhouette_area h win tp rt ''FRONT''"
  let ?c2 = "configure_silhouette_area h win bt rb ''RIGHT''"
  let ?a1 = "apply_view_axis h win tp rt ''FRONT''"
  let ?a2 = "apply_view_axis h win bt rb ''RIGHT''"
  let ?w1 = "snd (?c1 w)"
  let ?w2 = "snd (?c2 ?w1)"
  let ?w3 = "snd (?a1 ?w2)"
  let ?w4 = "snd (?a2 ?w3)"
  have def: "configure_pair h win tp rt bt rb = seq ?c1 (seq ?c2 (seq ?a1 (seq ?a2 (ret ()))))"
    by (simp add: configure_pair_def)
  have 1: "configure_pair h win tp rt bt rb w = seq ?c2 (seq ?a1 (seq ?a2 (ret ()))) ?w1"
    using seq_success [of ?c1 "seq ?c2 (seq ?a1 (seq ?a2 (ret ())))" w "()"] assms unfolding def by simp
  then have 2: "configure_pair h win tp rt bt rb w = seq ?a1 (seq ?a2 (ret ())) ?w2"
    using seq_success [of ?c2 "seq ?a1 (seq ?a2 (ret ()))" ?w1 "()"] assms by simp
  then have 3: "configure_pair h win tp rt bt rb w = seq ?a2 (ret ()) ?w3"
    using seq_success [of ?a1 "seq ?a2 (ret ())" ?w2 "()"] assms by simp
  then have 4: "configure_pair h win tp rt bt rb w = (Inr (), ?w4)"
    using seq_success [of ?a2 "ret ()" ?w3 "()"] assms by simp
  have c: "\<And>a r axis. emits (\<lambda>e. True) (configure_silhouette_area h win a r axis)"
    by (rule emits_configure) simp_all
  obtain e1 where e1: "snd ?w1 = snd w @ e1" using emits_true [OF c] by blast
  obtain e2 where e2: "snd ?w2 = snd ?w1 @ e2" using emits_true [OF c] by blast
  obtain e3 where e3: "snd ?w3 = snd ?w2 @ e3" "list_ex (axis_on tp ''FRONT'') e3"
    using apply_view_axis_calls by blast
  obtain e4 where e4: "snd ?w4 = snd ?w3 @ e4" "list_ex (axis_on bt ''RIGHT'') e4"
    using apply_view_axis_calls by blast
  have log: "snd (snd (configure_pair h win tp rt bt rb w)) = snd w @ (e1 @ e2 @ e3 @ e4)"
    using 4 e1 e2 e3 e4 by simp
  obtain evs where evs: "snd (snd (configure_pair h win tp rt bt rb w)) = snd w @ evs"
    "list_all (axis_assigns tp bt) evs"
    using emitsD [OF emits_configure_pair_assigns] by blast
  then have "evs = e1 @ e2 @ e3 @ e4" using log by simp
  then show ?thesis using evs e3 e4 by (intro exI [of _ evs]) auto
qed


lemma split_execute_success:
  assumes "fst (split_execute h ctx w) = Inr (FINISHED, c)"
  shows "\<exists>area win scr before.
     fst (get_ref (Some ctx) ''area'' w) = Inr (Some area) \<and>
     fst (get_ref (Some ctx) ''window'' w) = Inr win \<and>
     fst (get_ref (Some ctx) ''screen'' w) = Inr scr \<and>
     fst (get_refs scr ''areas'' w) = Inr before \<and>
     split_execute h ctx w =
       split_after_vertical h win scr area before (snd (split_vertical h area w))"
proof -
  let ?R = "(FINISHED, c)"
  let ?S = "split_execute h ctx w"
  let ?K5 = "\<lambda>win scr area before ok. if \<not> ok then ret (CANCELLED, None)
               else split_after_vertical h win scr area before"
  let ?K4 = "\<lambda>win scr area before. bind (getattr (Some area) ''x'')
               (\<lambda>orig_x. bind (split_vertical h area) (?K5 win scr area before))"
  let ?K3 = "\<lambda>win area scr. bind (get_refs scr ''areas'') (?K4 win scr area)"
  let ?K2 = "\<lambda>area win. bind (get_ref (Some ctx) ''screen'') (?K3 win area)"
  let ?K1 = "\<lambda>area_o (region :: ref option). if region = None then cancel ''No WINDOW region in current area.''
               else case area_o of
                 None \<Rightarrow> throw AttributeError
               | Some area \<Rightarrow> bind (get_ref (Some ctx) ''window'') (?K2 area)"
  have def: "?S = bind (get_ref (Some ctx) ''area'') (\<lambda>area_o. bind (window_region area_o) (?K1 area_o)) w"
    unfolding split_execute_def by simp
  obtain area_o where a: "get_ref (Some ctx) ''area'' w = (Inr area_o, w)"
    and e1: "?S = bind (window_region area_o) (?K1 area_o) w"
    using bind_ro_success [OF readonly_get_ref, of "Some ctx" "''area''" _ w ?R] assms def by auto
  obtain region where e2: "?S = ?K1 area_o region w"
    using bind_ro_success [OF readonly_window_region, of area_o "?K1 area_o" w ?R] assms e1 by auto
  have rn: "region \<noteq> None"
  proof
    assume "region = None"
    then have "?S = cancel ''No WINDOW region in current area.'' w" using e2 by simp
    then show False using assms by simp
  qed
  then obtain area where ar: "area_o = Some area"
    and e3: "?S = bind (get_ref (Some ctx) ''window'') (?K2 area) w"
    using assms e2 by (cases area_o) auto
  obtain win where wn: "get_ref (Some ctx) ''window'' w = (Inr win, w)" and e4: "?S = ?K2 area win w"
    using bind_ro_success [OF readonly_get_ref, of "Some ctx" "''window''" "?K2 area" w ?R] assms e3
    by auto
  obtain scr where sc: "get_ref (Some ctx) ''screen'' w = (Inr scr, w)" and e5: "?S = ?K3 win area scr w"
    using bind_ro_success [OF readonly_get_ref, of "Some ctx" "''screen''" "?K3 win area" w ?R] assms e4
    by auto
  obtain before where b: "get_refs scr ''areas'' w = (Inr before, w)"
    and e6: "?S = ?K4 win scr area before w"
    using bind_ro_success [OF readonly_get_refs, of scr "''areas''" "?K4 win scr area" w ?R] assms e5
    by auto
  have e7: "?S = bind (split_vertical h area) (?K5 win scr area before) w"
    using bind_ro_success [OF readonly_getattr, of "Some area" "''x''" _ w ?R] assms e6 by auto
  obtain ok where e8: "?S = ?K5 win scr area before ok (snd (split_vertical h area w))"
    using bind_success [of "split_vertical h area" "?K5 win scr area before" w ?R] assms e7 by auto
  have ok using assms e8 by (cases ok) auto
  then have "?S = split_after_vertical h win scr area before (snd (split_vertical h area w))"
    using e8 by simp
  then show ?thesis using a ar wn sc b by auto
qed

lemma emits_split_vertical: "emits (\<lambda>e. \<not> is_axis_event e) (split_vertical h area)"
  unfolding split_vertical_def Let_def by (intro em) (auto simp: is_axis_op_def)

lemma emits_Pair [em]: "emits P (Pair r)"
  by (rule emits_readonly) (rule readonly_Pair)

lemma emits_split_left_loop: "emits (\<lambda>e. \<not> is_axis_event e) (split_left_loop h l rs)"
  by (induction rs) (auto intro!: em simp: split_in_left_def Let_def is_axis_op_def)

lemma emits_split_left: "emits (\<lambda>e. \<not> is_axis_event e) (split_left h l)"
  unfolding split_left_def by (intro em emits_split_left_loop) (auto simp: is_axis_op_def)


lemma deferred_finish_calls:
  assumes "fst (deferred_finish h win tp rt bt rb w) = Inr ()"
  shows "\<exists>evs. snd (snd (deferred_finish h win tp rt bt rb w)) = snd w @ evs \<and>
     list_all (axis_assigns tp bt) evs \<and>
     list_ex (axis_on tp ''FRONT'') evs \<and> list_ex (axis_on bt ''RIGHT'') evs"
proof -
  define k where "k = seqs [try_pass (bind (active_space tp) hide_ui),
        try_pass (bind (active_space bt) hide_ui), distance_backoff tp bt]"
  have def: "deferred_finish h win tp rt bt rb = seq (configure_pair h win tp rt bt rb) k"
    by (simp add: deferred_finish_def k_def)
  have k: "emits (\<lambda>e. True) k" unfolding k_def
    by (intro em emits_hide_ui emits_distance_backoff) simp_all
  let ?w1 = "snd (configure_pair h win tp rt bt rb w)"
  have ok: "fst (configure_pair h win tp rt bt rb w) = Inr ()"
    and eq: "deferred_finish h win tp rt bt rb w = k ?w1"
    using seq_success [of "configure_pair h win tp rt bt rb" k w "()"] assms unfolding def by auto
  obtain e1 where e1: "snd ?w1 = snd w @ e1" "list_ex (axis_on tp ''FRONT'') e1"
    "list_ex (axis_on bt ''RIGHT'') e1"
    using configure_pair_calls [OF ok] by blast
  obtain e2 where e2: "snd (snd (k ?w1)) = snd ?w1 @ e2" using emits_true [OF k] by blast
  obtain evs where evs: "snd (snd (deferred_finish h win tp rt bt rb w)) = snd w @ evs"
    "list_all (axis_assigns tp bt) evs"
    using emitsD [OF emits_deferred_finish_assigns] by blast
  have "evs = e1 @ e2" using evs(1) e1(1) e2 eq by simp
  then show ?thesis using evs e1 by (intro exI [of _ evs]) auto
qed

lemma split_configure_calls:
  assumes "fst (split_configure h win tp bt w) = Inr (FINISHED, c)"
  shows "\<exists>evs. snd (snd (split_configure h win tp bt w)) = snd w @ evs \<and>
     list_all (axis_assigns tp bt) evs \<and>
     list_ex (axis_on tp ''FRONT'') evs \<and> list_ex (axis_on bt ''RIGHT'') evs"
proof -
  obtain rt rb where c: "c = Some (win, tp, rt, bt, rb)"
    and eq: "split_configure h win tp bt w =
       seq (configure_pair h win tp rt bt rb)
         (seq (try_pass (call h (TimerRegister ''_post_fix'' 0.05)))
            (ret (FINISHED, Some (win, tp, rt, bt, rb)))) w"
    using split_configure_success [OF assms] by blast
  define k where "k = seq (try_pass (call h (TimerRegister ''_post_fix'' 0.05)))
            (ret (FINISHED, Some (win, tp, rt, bt, rb)))"
  have k: "emits (\<lambda>e. True) k" unfolding k_def by (intro em) simp_all
  let ?w1 = "snd (configure_pair h win tp rt bt rb w)"
  have ok: "fst (configure_pair h win tp rt bt rb w) = Inr ()"
    and eq': "split_configure h win tp bt w = k ?w1"
    using seq_success [of "configure_pair h win tp rt bt rb" k w "(FINISHED, c)"] assms
    unfolding eq k_def by auto
  obtain e1 where e1: "snd ?w1 = snd w @ e1" "list_ex (axis_on tp ''FRONT'') e1"
    "list_ex (axis_on bt ''RIGHT'') e1"
    using configure_pair_calls [OF ok] by blast
  obtain e2 where e2: "snd (snd (k ?w1)) = snd ?w1 @ e2" using emits_true [OF k] by blast
  obtain evs where evs: "snd (snd (split_configure h win tp bt w)) = snd w @ evs"
    "list_all (axis_assigns tp bt) evs"
    using emitsD [OF emits_split_configure_assigns] by blast
  have "evs = e1 @ e2" using evs(1) e1(1) e2 eq' by simp
  then show ?thesis using evs e1 by (intro exI [of _ evs]) auto
qed


lemma deferred_run:
  assumes "fst (deferred_setup_body h nw w) = Inr None"
  shows "\<exists>a r tp rt bt rb yt yb evs.
      deferred_setup_body h nw w =
        seq (deferred_finish h nw tp rt bt rb) (ret None) (snd (deferred_split h nw a r w)) \<and>
      area_y (fst (snd (deferred_split h nw a r w))) tp = Some yt \<and>
      area_y (fst (snd (deferred_split h nw a r w))) bt = Some yb \<and>
      yb \<le> yt \<and> tp \<noteq> bt \<and>
      snd (snd (deferred_setup_body h nw w)) = snd w @ evs \<and>
      list_all (axis_assigns tp bt) evs \<and>
      list_ex (axis_on tp ''FRONT'') evs \<and> list_ex (axis_on bt ''RIGHT'') evs \<and>
      fst (find_window_view3d_area nw w) = Inr (Some a, Some r) \<and> (tp = a \<or> bt = a)"
proof -
  obtain a r tp rt bt rb yt yb where
    eq: "deferred_setup_body h nw w =
       seq (deferred_finish h nw tp rt bt rb) (ret None) (snd (deferred_split h nw a r w))"
    and y: "area_y (fst (snd (deferred_split h nw a r w))) tp = Some yt"
      "area_y (fst (snd (deferred_split h nw a r w))) bt = Some yb" "yb \<le> yt" "tp \<noteq> bt"
    and fd: "fst (find_window_view3d_area nw w) = Inr (Some a, Some r)" "tp = a \<or> bt = a"
    using deferred_body_success [OF assms] by blast
  let ?ws = "snd (deferred_split h nw a r w)"
  have ok: "fst (deferred_finish h nw tp rt bt rb ?ws) = Inr ()"
    and eq': "deferred_setup_body h nw w = (Inr None, snd (deferred_finish h nw tp rt bt rb ?ws))"
    using seq_success [of "deferred_finish h nw tp rt bt rb" "ret None" ?ws None] assms
    unfolding eq by auto
  obtain e0 where e0: "snd ?ws = snd w @ e0" "list_all is_split_event e0"
    using emitsD [OF emits_deferred_split] by blast
  have e0': "list_all (axis_assigns tp bt) e0"
    using e0(2) by (auto simp: list_all_iff axis_assigns_def elim!: is_split_event.elims
        simp: is_axis_op_def)
  obtain e1 where e1: "snd (snd (deferred_finish h nw tp rt bt rb ?ws)) = snd ?ws @ e1"
    "list_all (axis_assigns tp bt) e1" "list_ex (axis_on tp ''FRONT'') e1"
    "list_ex (axis_on bt ''RIGHT'') e1"
    using deferred_finish_calls [OF ok] by blast
  have lg: "snd (snd (deferred_setup_body h nw w)) = snd w @ e0 @ e1"
    unfolding eq' using e0(1) e1(1) by simp
  show ?thesis
    by (rule exI [of _ a], rule exI [of _ r], rule exI [of _ tp], rule exI [of _ rt],
        rule exI [of _ bt], rule exI [of _ rb], rule exI [of _ yt], rule exI [of _ yb],
        rule exI [of _ "e0 @ e1"])
      (use eq y lg e0' e1 fd in simp)
qed

lemma split_run:
  assumes "fst (split_execute h ctx w) = Inr (FINISHED, c)"
  shows "\<exists>area area_left win scr tp rt bt rb yt yb after after2 evs.
      c = Some (win, tp, rt, bt, rb) \<and>
      split_execute h ctx w =
        split_configure h win tp bt (snd (split_left h area_left (snd (split_vertical h area w)))) \<and>
      area_y (fst (snd (split_left h area_left (snd (split_vertical h area w))))) tp = Some yt \<and>
      area_y (fst (snd (split_left h area_left (snd (split_vertical h area w))))) bt = Some yb \<and>
      yb \<le> yt \<and>
      fst (get_ref (Some ctx) ''area'' w) = Inr (Some area) \<and>
      fst (get_ref (Some ctx) ''screen'' w) = Inr scr \<and>
      fst (get_refs scr ''areas'' (snd (split_vertical h area w))) = Inr after \<and>
      fst (get_refs scr ''areas'' (snd (split_left h area_left (snd (split_vertical h area w))))) =
        Inr after2 \<and>
      (distinct after2 \<and> area \<in> set after \<longrightarrow> tp \<noteq> bt) \<and>
      lookup (fst (snd (split_left h area_left (snd (split_vertical h area w))))) (Some tp) ''type'' =
        Inr (VStr ''VIEW_3D'') \<and>
      lookup (fst (snd (split_left h area_left (snd (split_vertical h area w))))) (Some bt) ''type'' =
        Inr (VStr ''VIEW_3D'') \<and>
      snd (snd (split_execute h ctx w)) = snd w @ evs \<and>
      list_all (axis_assigns tp bt) evs \<and>
      list_ex (axis_on tp ''FRONT'') evs \<and> list_ex (axis_on bt ''RIGHT'') evs"
proof -
  obtain area win scr before where
    a: "fst (get_ref (Some ctx) ''area'' w) = Inr (Some area)"
      "fst (get_ref (Some ctx) ''screen'' w) = Inr scr"
    and e1: "split_execute h ctx w =
       split_after_vertical h win scr area before (snd (split_vertical h area w))"
    using split_execute_success [OF assms] by blast
  let ?w1 = "snd (split_vertical h area w)"
  have s1: "fst (split_after_vertical h win scr area before ?w1) = Inr (FINISHED, c)"
    using assms e1 by simp
  obtain area_left tp bt yt yb after after2 where
    e2: "split_after_vertical h win scr area before ?w1 =
       split_configure h win tp bt (snd (split_left h area_left ?w1))"
    and y: "area_y (fst (snd (split_left h area_left ?w1))) tp = Some yt"
      "area_y (fst (snd (split_left h area_left ?w1))) bt = Some yb" "yb \<le> yt"
    and ar: "fst (get_refs scr ''areas'' ?w1) = Inr after"
      "fst (get_refs scr ''areas'' (snd (split_left h area_left ?w1))) = Inr after2"
      "distinct after2 \<and> area \<in> set after \<longrightarrow> tp \<noteq> bt"
    and ty: "lookup (fst (snd (split_left h area_left ?w1))) (Some tp) ''type'' = Inr (VStr ''VIEW_3D'')"
      "lookup (fst (snd (split_left h area_left ?w1))) (Some bt) ''type'' = Inr (VStr ''VIEW_3D'')"
    using split_after_vertical_success [OF s1] by blast
  let ?ws = "snd (split_left h area_left ?w1)"
  have s2: "fst (split_configure h win tp bt ?ws) = Inr (FINISHED, c)" using s1 e2 by simp
  obtain rt rb where c: "c = Some (win, tp, rt, bt, rb)"
    using split_configure_success [OF s2] by blast
  obtain e0 where e0: "snd ?w1 = snd w @ e0" "list_all (\<lambda>e. \<not> is_axis_event e) e0"
    using emitsD [OF emits_split_vertical] by blast
  obtain e0' where e0': "snd ?ws = snd ?w1 @ e0'" "list_all (\<lambda>e. \<not> is_axis_event e) e0'"
    using emitsD [OF emits_split_left] by blast
  obtain e3 where e3: "snd (snd (split_configure h win tp bt ?ws)) = snd ?ws @ e3"
    "list_all (axis_assigns tp bt) e3" "list_ex (axis_on tp ''FRONT'') e3"
    "list_ex (axis_on bt ''RIGHT'') e3"
    using split_configure_calls [OF s2] by blast
  have eq: "split_execute h ctx w = split_configure h win tp bt ?ws" using e1 e2 by simp
  have lg: "snd (snd (split_execute h ctx w)) = snd w @ (e0 @ e0') @ e3"
    unfolding eq using e0(1) e0'(1) e3(1) by simp
  have na: "list_all (axis_assigns tp bt) (e0 @ e0')"
    using e0(2) e0'(2) by (auto simp: list_all_iff axis_assigns_def)
  show ?thesis
    by (rule exI [of _ area], rule exI [of _ area_left], rule exI [of _ win], rule exI [of _ scr],
        rule exI [of _ tp], rule exI [of _ rt], rule exI [of _ bt], rule exI [of _ rb],
        rule exI [of _ yt], rule exI [of _ yb], rule exI [of _ after], rule exI [of _ after2],
        rule exI [of _ "(e0 @ e0') @ e3"])
      (use c eq y a ar ty lg na e3 in simp)
qed

section \<open>Which area gets which axis\<close>


lemma sim_deferred_success: "fst (deferred_setup_body sim_host (Some 2) (sim_heap, [])) = Inr None"
  by code_simp

lemma sim_split_success:
  "fst (split_execute sim_host 0 (sim_heap, [])) = Inr (FINISHED, Some (Some 1, 30, 31, 10, 11))"
  by code_simp


section \<open>The two modes\<close>

lemma nw_apply: "emits (\<lambda>e. \<not> creates_window e) (apply_view_axis h win a r axis)"
  unfolding apply_view_axis_def axis_in_override_def axis_legacy_def force_ortho_def
    lock_rotation_def
  by (intro em) auto

lemma nw_configure: "emits (\<lambda>e. \<not> creates_window e) (configure_silhouette_area h win a r axis)"
  unfolding configure_silhouette_area_def silhouette_styling_def hide_ui_first_def hide_overlays_def
    frame_selected_def hide_ui_def
  by (intro em nw_apply) auto

lemma nw_configure_pair: "emits (\<lambda>e. \<not> creates_window e) (configure_pair h win a r b rb)"
  unfolding configure_pair_def by (intro em nw_apply nw_configure)

lemma nw_split_configure: "emits (\<lambda>e. \<not> creates_window e) (split_configure h win a b)"
  unfolding split_configure_def cancel_def by (intro em nw_configure_pair) auto

lemma nw_split_vertical: "emits (\<lambda>e. \<not> creates_window e) (split_vertical h area)"
  unfolding split_vertical_def Let_def by (intro em) auto

lemma nw_split_left_loop: "emits (\<lambda>e. \<not> creates_window e) (split_left_loop h l rs)"
  by (induction rs) (auto intro!: em simp: split_in_left_def Let_def)

lemma nw_split_left: "emits (\<lambda>e. \<not> creates_window e) (split_left h l)"
  unfolding split_left_def by (intro em nw_split_left_loop) auto

lemmas emits_reads2 [em] =
  emits_readonly [OF readonly_pick_left_right] emits_readonly [OF readonly_pick_left_subs]
  emits_readonly [OF readonly_order_top_bottom]

lemma nw_split_after_vertical:
  "emits (\<lambda>e. \<not> creates_window e) (split_after_vertical h win scr area before)"
  unfolding split_after_vertical_def Let_def cancel_def
  by (intro em nw_split_left nw_split_configure) (auto intro!: em nw_split_configure)

lemma nw_split_execute: "emits (\<lambda>e. \<not> creates_window e) (split_execute h ctx)"
  unfolding split_execute_def cancel_def
  by (intro em nw_split_vertical nw_split_after_vertical) auto

lemma nw_post_fix: "emits (\<lambda>e. \<not> creates_window e) (post_fix h cap)"
  unfolding post_fix_def fix_identical_def view_rotation_of_def hide_ui_def hide_overlays_def
  by (cases cap) (auto intro!: em nw_apply)

lemma nw_deferred_finish: "emits (\<lambda>e. \<not> creates_window e) (deferred_finish h win a r b rb)"
  unfolding deferred_finish_def
  by (intro em nw_configure_pair emits_hide_ui emits_distance_backoff) auto

lemma nw_deferred_setup: "emits (\<lambda>e. \<not> creates_window e) (deferred_setup h nw)"
  unfolding deferred_setup_def deferred_setup_body_def Let_def
  by (intro em nw_deferred_finish emits_mono [OF emits_deferred_split])
    (auto intro!: em nw_deferred_finish elim: is_split_event.elims)


lemma split_vertical_first:
  "\<exists>rest. snd (snd (split_vertical h area w)) = snd w @ Call vertical_split # rest"
proof -
  define H where "H = try_except_as
          (bind (get_int (Some area) ''x'')
             (\<lambda>x. bind (get_int (Some area) ''width'')
                (\<lambda>wd. bind (get_int (Some area) ''y'')
                   (\<lambda>y. bind (get_int (Some area) ''height'')
                      (\<lambda>ht.
                         let cx = x + max 1 (py_int (real_of_int wd * 0.5));
                             cy = y + max 1 (py_int (real_of_int ht * 0.5))
                         in seq (call h (Op ''screen.area_split'' Ambient
                                           [(''direction'', VStr ''VERTICAL''),
                                            (''cursor'', VPair cx cy)]))
                              (ret True))))))
          (\<lambda>e. seq (report ''ERROR'' (''Failed to split current area: '' @ exn_str e))
                 (ret False))"
  have H: "emits (\<lambda>e. True) H" unfolding H_def Let_def by (intro em) simp_all
  have def: "split_vertical h area = try_except (seq (call h vertical_split) (ret True)) H"
    unfolding split_vertical_def H_def vertical_split_def ..
  obtain r hp where c: "call h vertical_split w = (r, hp, snd w @ [Call vertical_split])"
    using call_log [of h vertical_split w] by (metis prod.collapse)
  obtain e where e: "snd (snd (H (hp, snd w @ [Call vertical_split]))) =
      (snd w @ [Call vertical_split]) @ e"
    using emits_true [OF H, of "(hp, snd w @ [Call vertical_split])"] by auto
  show ?thesis unfolding def using c e
    by (cases r) (auto simp: try_except_app seq_app)
qed

lemma dual_execute_first:
  assumes "fst (get_ref (Some ctx) ''window'' w) = Inr ow"
  shows "\<exists>rest. snd (snd (dual_execute h ctx w)) = snd w @ Call window_new # rest"
proof (cases "fst (run h window_new (fst w))")
  case (Some e)
  then show ?thesis using dual_execute_cases [OF assms, of h] by simp
next
  case None
  have k: "emits (\<lambda>e. True) (bind (get_ref (Some bpy_context) ''window'') (after_window h ow))"
    by (intro em emits_mono [OF emits_after_window]) simp
  obtain e where "snd (snd (bind (get_ref (Some bpy_context) ''window'') (after_window h ow)
      (snd (run h window_new (fst w)), snd w @ [Call window_new]))) = (snd w @ [Call window_new]) @ e"
    using emits_true [OF k, of "(snd (run h window_new (fst w)), snd w @ [Call window_new])"] by auto
  then show ?thesis using dual_execute_cases [OF assms, of h] None by simp
qed

lemma split_execute_first:
  assumes "fst (split_execute h ctx w) = Inr (FINISHED, c)"
  shows "\<exists>rest. snd (snd (split_execute h ctx w)) = snd w @ Call vertical_split # rest"
proof -
  obtain area win scr before where eq: "split_execute h ctx w =
       split_after_vertical h win scr area before (snd (split_vertical h area w))"
    using split_execute_success [OF assms] by blast
  obtain r1 where 1: "snd (snd (split_vertical h area w)) = snd w @ Call vertical_split # r1"
    using split_vertical_first by blast
  have "emits (\<lambda>e. True) (split_after_vertical h win scr area before)"
    by (rule emits_mono [OF nw_split_after_vertical]) simp
  then obtain r2 where "snd (snd (split_after_vertical h win scr area before
      (snd (split_vertical h area w)))) = snd (snd (split_vertical h area w)) @ r2"
    using emits_true by blast
  then show ?thesis unfolding eq using 1 by simp
qed

text \<open>
  Claim C2. The menu has two entries, the two operators. \<open>execute\<close> of
  \<open>view3d.open_silhouette_view_dual\<close> begins by calling \<open>wm.window_new\<close> and does nothing but
  open, size and place the window and register the deferred setup, which configures the
  views afterwards and opens no window. The operator \<open>view3d.open_silhouette_split_current\<close>
  and its timer callback never call \<open>wm.window_new\<close>; a run that finishes has begun by
  calling \<open>screen.area_split\<close> in the ambient context, that is, on the current area.
\<close>

theorem menu_and_modes:
  "map fst silhouette_menu_draw = [split_idname, dual_idname] \<and> split_idname \<noteq> dual_idname \<and>
   (\<forall>ow. fst (get_ref (Some ctx) ''window'' w) = Inr ow \<longrightarrow>
      (\<exists>rest. snd (snd (dual_execute h ctx w)) = snd w @ Call window_new # rest)) \<and>
   (\<exists>evs. snd (snd (dual_execute h ctx w)) = snd w @ evs \<and> list_all is_window_event evs) \<and>
   (\<exists>evs. snd (snd (deferred_setup h nw w)) = snd w @ evs \<and>
      list_all (\<lambda>e. \<not> creates_window e) evs) \<and>
   (\<exists>evs. snd (snd (split_execute h ctx w)) = snd w @ evs \<and>
      list_all (\<lambda>e. \<not> creates_window e) evs) \<and>
   (\<exists>evs. snd (snd (post_fix h cap w)) = snd w @ evs \<and>
      list_all (\<lambda>e. \<not> creates_window e) evs) \<and>
   (\<forall>c. fst (split_execute h ctx w) = Inr (FINISHED, c) \<longrightarrow>
      (\<exists>rest. snd (snd (split_execute h ctx w)) = snd w @ Call vertical_split # rest))"
proof (intro conjI allI impI)
  show "map fst silhouette_menu_draw = [split_idname, dual_idname]"
    by (simp add: silhouette_menu_draw_def)
  show "split_idname \<noteq> dual_idname" by (simp add: split_idname_def dual_idname_def)
  show "\<exists>evs. snd (snd (dual_execute h ctx w)) = snd w @ evs \<and> list_all is_window_event evs"
    by (rule emitsD [OF emits_dual_execute])
  show "\<exists>evs. snd (snd (deferred_setup h nw w)) = snd w @ evs \<and>
      list_all (\<lambda>e. \<not> creates_window e) evs"
    by (rule emitsD [OF nw_deferred_setup])
  show "\<exists>evs. snd (snd (split_execute h ctx w)) = snd w @ evs \<and>
      list_all (\<lambda>e. \<not> creates_window e) evs"
    by (rule emitsD [OF nw_split_execute])
  show "\<exists>evs. snd (snd (post_fix h cap w)) = snd w @ evs \<and>
      list_all (\<lambda>e. \<not> creates_window e) evs"
    by (rule emitsD [OF nw_post_fix])
next
  fix ow
  assume "fst (get_ref (Some ctx) ''window'' w) = Inr ow"
  then show "\<exists>rest. snd (snd (dual_execute h ctx w)) = snd w @ Call window_new # rest"
    by (rule dual_execute_first)
next
  fix c
  assume "fst (split_execute h ctx w) = Inr (FINISHED, c)"
  then show "\<exists>rest. snd (snd (split_execute h ctx w)) = snd w @ Call vertical_split # rest"
    by (rule split_execute_first)
qed

theorem menu_and_modes_witness:
  "fst (get_ref (Some 0) ''window'' (sim_heap, [])) = Inr (Some 1) \<and>
   (\<exists>rest. snd (snd (dual_execute sim_host 0 (sim_heap, []))) = Call window_new # rest) \<and>
   fst (split_execute sim_host 0 (sim_heap, [])) = Inr (FINISHED, Some (Some 1, 30, 31, 10, 11)) \<and>
   (\<exists>rest. snd (snd (split_execute sim_host 0 (sim_heap, []))) = Call vertical_split # rest)"
  using menu_and_modes [of 0 "(sim_heap, [])" sim_host None "(None, 0, 0, 0, 0)"]
    sim_context_window sim_split_success
  by simp

section \<open>Invariants of the store\<close>

lemma preservesD: "preserves I m \<Longrightarrow> I (fst w) \<Longrightarrow> I (fst (snd (m w)))"
  unfolding preserves_def by blast

lemma preservesI: "(\<And>w. I (fst w) \<Longrightarrow> I (fst (snd (m w)))) \<Longrightarrow> preserves I m"
  unfolding preserves_def by blast

lemma preserves_readonly: "readonly m \<Longrightarrow> preserves I m"
  unfolding preserves_def readonly_def by metis

lemma preserves_ret [pr]: "preserves I (ret x)" by (simp add: preserves_readonly ro)
lemma preserves_throw [pr]: "preserves I (throw e)" by (simp add: preserves_readonly ro)
lemma preserves_Pair [pr]: "preserves I (Pair r)" by (simp add: preserves_readonly ro)

lemma preserves_bind [pr]:
  assumes "preserves I m" and "\<And>x. preserves I (f x)"
  shows "preserves I (bind m f)"
proof (rule preservesI)
  fix w :: world assume i: "I (fst w)"
  have 1: "I (fst (snd (m w)))" using preservesD [OF assms(1) i] .
  show "I (fst (snd (bind m f w)))"
  proof (cases "fst (m w)")
    case (Inl e)
    then have "bind m f w = (Inl e, snd (m w))" by (cases "m w") (simp add: bind_app)
    then show ?thesis using 1 by simp
  next
    case (Inr x)
    then have "bind m f w = f x (snd (m w))" by (cases "m w") (simp add: bind_app)
    then show ?thesis using preservesD [OF assms(2) 1] by simp
  qed
qed

lemma preserves_seq [pr]: "preserves I m \<Longrightarrow> preserves I n \<Longrightarrow> preserves I (seq m n)"
  by (simp add: seq_def preserves_bind)

lemma preserves_try_except_as [pr]:
  assumes "preserves I m" and "\<And>e. preserves I (h e)"
  shows "preserves I (try_except_as m h)"
proof (rule preservesI)
  fix w :: world assume i: "I (fst w)"
  have 1: "I (fst (snd (m w)))" using preservesD [OF assms(1) i] .
  show "I (fst (snd (try_except_as m h w)))"
  proof (cases "fst (m w)")
    case (Inl e)
    then have "try_except_as m h w = h e (snd (m w))" by (cases "m w") (simp add: try_except_as_app)
    then show ?thesis using preservesD [OF assms(2) 1] by simp
  next
    case (Inr x)
    then have "try_except_as m h w = (Inr x, snd (m w))" by (cases "m w") (simp add: try_except_as_app)
    then show ?thesis using 1 by simp
  qed
qed

lemma preserves_try_except [pr]: "preserves I m \<Longrightarrow> preserves I n \<Longrightarrow> preserves I (try_except m n)"
  by (simp add: try_except_def preserves_try_except_as)

lemma preserves_try_pass [pr]: "preserves I m \<Longrightarrow> preserves I (try_pass m)"
  by (simp add: try_pass_def preserves_try_except preserves_ret)

lemma preserves_seqs_Nil [pr]: "preserves I (seqs [])" by (simp add: preserves_ret)

lemma preserves_seqs_Cons [pr]:
  "preserves I m \<Longrightarrow> preserves I (seqs ms) \<Longrightarrow> preserves I (seqs (m # ms))"
  by (simp add: preserves_seq)

lemma preserves_if [pr]:
  "(c \<Longrightarrow> preserves I a) \<Longrightarrow> (\<not> c \<Longrightarrow> preserves I b) \<Longrightarrow> preserves I (if c then a else b)"
  by simp

lemma preserves_case_option [pr]:
  "(x = None \<Longrightarrow> preserves I a) \<Longrightarrow> (\<And>y. x = Some y \<Longrightarrow> preserves I (b y)) \<Longrightarrow>
   preserves I (case x of None \<Rightarrow> a | Some y \<Rightarrow> b y)"
  by (cases x) simp_all

lemma preserves_case_list [pr]:
  "(xs = [] \<Longrightarrow> preserves I a) \<Longrightarrow> (\<And>y ys. xs = y # ys \<Longrightarrow> preserves I (b y ys)) \<Longrightarrow>
   preserves I (case xs of [] \<Rightarrow> a | y # ys \<Rightarrow> b y ys)"
  by (cases xs) simp_all

lemma preserves_case_prod [pr]:
  "(\<And>a b. x = (a, b) \<Longrightarrow> preserves I (f a b)) \<Longrightarrow> preserves I (case x of (a, b) \<Rightarrow> f a b)"
  by (cases x) simp_all

lemma preserves_setattr [pr]:
  "write_keeps I \<Longrightarrow> addon_write nm v \<Longrightarrow> preserves I (setattr ro nm v)"
  unfolding write_keeps_def
  by (rule preservesI) (auto simp: setattr_def split: option.splits)

lemma preserves_call [pr]:
  assumes "host_keeps h I"
  shows "preserves I (call h c)"
proof (rule preservesI)
  fix w :: world assume "I (fst w)"
  then have "I (snd (run h c (fst w)))" using assms unfolding host_keeps_def by blast
  moreover have "fst (snd (call h c w)) = snd (run h c (fst w))"
    by (cases w) (simp add: call_def split: prod.splits option.splits)
  ultimately show "I (fst (snd (call h c w)))" by simp
qed

lemma preserves_report [pr]: "preserves I (report l m)"
  by (rule preservesI) (simp add: report_def)

lemma preserves_with_override [pr]:
  assumes "host_keeps h I" and "preserves I body"
  shows "preserves I (with_override h kw body)"
proof -
  have "preserves I (\<lambda>w. case body w of (r, w') \<Rightarrow>
      (case call h (OverrideExit kw) w' of (Inl e, w'') \<Rightarrow> (Inl e, w'') | (Inr _, w'') \<Rightarrow> (r, w'')))"
  proof (rule preservesI)
    fix w :: world assume "I (fst w)"
    then have "I (fst (snd (body w)))" by (rule preservesD [OF assms(2)])
    then have "I (fst (snd (call h (OverrideExit kw) (snd (body w)))))"
      by (rule preservesD [OF preserves_call [OF assms(1)]])
    then show "I (fst (snd (case body w of (r, w') \<Rightarrow>
      (case call h (OverrideExit kw) w' of (Inl e, w'') \<Rightarrow> (Inl e, w'') | (Inr _, w'') \<Rightarrow> (r, w'')))))"
      by (auto split: prod.splits sum.splits)
  qed
  then show ?thesis unfolding with_override_def
    by (intro preserves_seq preserves_call assms)
qed

lemmas preserves_reads [pr] =
  preserves_readonly [OF readonly_getattr] preserves_readonly [OF readonly_getattr_default]
  preserves_readonly [OF readonly_as_ref] preserves_readonly [OF readonly_as_refs]
  preserves_readonly [OF readonly_as_int] preserves_readonly [OF readonly_as_quat]
  preserves_readonly [OF readonly_get_ref] preserves_readonly [OF readonly_get_refs]
  preserves_readonly [OF readonly_get_int] preserves_readonly [OF readonly_get_quat]
  preserves_readonly [OF readonly_first_of_type] preserves_readonly [OF readonly_window_region]
  preserves_readonly [OF readonly_active_space] preserves_readonly [OF readonly_region_3d]
  preserves_readonly [OF readonly_find] preserves_readonly [OF readonly_areas_if]
  preserves_readonly [OF readonly_window_areas] preserves_readonly [OF readonly_get_int_default]
  preserves_readonly [OF readonly_pick_left_right] preserves_readonly [OF readonly_pick_left_subs]
  preserves_readonly [OF readonly_order_top_bottom]


lemma preserves_first_of_type [pr]: "preserves I (first_of_type t rs)"
  by (rule preserves_readonly [OF readonly_first_of_type])

lemma preserves_silhouette_styling:
  "write_keeps I \<Longrightarrow> preserves I (silhouette_styling sp)"
  unfolding silhouette_styling_def by (intro pr) (simp_all add: addon_write_def)

lemma preserves_hide_ui: "write_keeps I \<Longrightarrow> preserves I (hide_ui sp)"
  unfolding hide_ui_def hide_overlays_def by (intro pr) (simp_all add: addon_write_def)

lemma preserves_hide_ui_first: "write_keeps I \<Longrightarrow> preserves I (hide_ui_first sp)"
  unfolding hide_ui_first_def hide_overlays_def by (intro pr) (simp_all add: addon_write_def)

lemma preserves_apply_view_axis:
  "host_keeps h I \<Longrightarrow> write_keeps I \<Longrightarrow> preserves I (apply_view_axis h win a r axis)"
  unfolding apply_view_axis_def force_ortho_def lock_rotation_def axis_in_override_def
    axis_legacy_def
  by (intro pr) (simp_all add: addon_write_def)

lemma preserves_frame_selected:
  "host_keeps h I \<Longrightarrow> preserves I (frame_selected h win a r)"
  unfolding frame_selected_def by (intro pr)

lemma preserves_configure:
  "host_keeps h I \<Longrightarrow> write_keeps I \<Longrightarrow> preserves I (configure_silhouette_area h win a r axis)"
  unfolding configure_silhouette_area_def
  by (intro pr preserves_silhouette_styling preserves_hide_ui preserves_hide_ui_first
      preserves_apply_view_axis preserves_frame_selected) (simp_all add: addon_write_def)

lemma preserves_configure_pair:
  "host_keeps h I \<Longrightarrow> write_keeps I \<Longrightarrow> preserves I (configure_pair h win tp rt bt rb)"
  unfolding configure_pair_def by (intro pr preserves_configure preserves_apply_view_axis)

lemma preserves_distance_backoff: "write_keeps I \<Longrightarrow> preserves I (distance_backoff tp bt)"
  unfolding distance_backoff_def Let_def as_float_def
  by (intro pr) (simp_all add: addon_write_def preserves_readonly ro split: val.splits)

lemma preserves_deferred_finish:
  "host_keeps h I \<Longrightarrow> write_keeps I \<Longrightarrow> preserves I (deferred_finish h win tp rt bt rb)"
  unfolding deferred_finish_def
  by (intro pr preserves_configure_pair preserves_hide_ui preserves_distance_backoff)

lemma preserves_deferred_split: "host_keeps h I \<Longrightarrow> preserves I (deferred_split h nw a r)"
  unfolding deferred_split_def Let_def by (intro pr)

lemma preserves_split_vertical: "host_keeps h I \<Longrightarrow> preserves I (split_vertical h a)"
  unfolding split_vertical_def Let_def by (intro pr)

lemma preserves_split_left_loop: "host_keeps h I \<Longrightarrow> preserves I (split_left_loop h a rs)"
  by (induction rs) (auto simp: split_in_left_def Let_def intro!: pr)

lemma preserves_split_left: "host_keeps h I \<Longrightarrow> preserves I (split_left h a)"
  unfolding split_left_def by (intro pr preserves_split_left_loop)

lemma write_keeps_live: "write_keeps (live ro)"
  unfolding write_keeps_def live_def by (auto split: option.splits)

section \<open>Polling and framing\<close>

lemma seq_ok_app: "fst (m w) = Inr () \<Longrightarrow> seq m n w = n (snd (m w))"
  by (cases "m w") (simp add: seq_app)

lemma try_pass_ok: "fst (try_pass m w) = Inr ()"
  by (simp add: try_pass_app)

lemma frame_selected_calls:
  assumes acc: "accepts_override h" and lv: "live win (fst w)"
  shows "\<exists>evs. snd (snd (frame_selected h win a r w)) = snd w @ evs \<and> list_ex (framed_on a) evs"
proof -
  have "\<exists>screen. getattr_default win ''screen'' (VRef None) w = (Inr screen, w)"
    using lv by (cases win)
      (auto simp: getattr_default_def lookup_def live_def split: option.splits)
  then obtain screen where sc: "getattr_default win ''screen'' (VRef None) w = (Inr screen, w)"
    by blast
  let ?kw = "full_override win screen a r"
  let ?c = "Op ''view3d.view_selected'' (Temp ?kw) [(''use_all_regions'', VBool False)]"
  let ?w1 = "snd (call h (OverrideEnter ?kw) w)"
  let ?w2 = "snd (call h ?c ?w1)"
  let ?w3 = "snd (call h (OverrideExit ?kw) ?w2)"
  have enter: "fst (call h (OverrideEnter ?kw) w) = Inr ()"
    using acc unfolding accepts_override_def
    by (simp add: call_def split: prod.splits option.splits) (metis fst_conv option.discI)
  have "snd (with_override h ?kw (call h ?c) w) = ?w3"
    unfolding with_override_def using enter
    by (simp add: seq_ok_app split: prod.splits sum.splits)
  then have "snd (frame_selected h win a r w) = ?w3"
    unfolding frame_selected_def by (simp add: try_pass_app bind_app sc)
  moreover have "snd ?w3 = snd w @ [Call (OverrideEnter ?kw), Call ?c, Call (OverrideExit ?kw)]"
    by (simp add: call_log)
  moreover have "framed_on a (Call ?c)" by (simp add: full_override_def)
  ultimately show ?thesis by (intro exI [of _ "[Call (OverrideEnter ?kw), Call ?c, Call (OverrideExit ?kw)]"]) simp
qed

lemma emits_framing_apply:
  "emits (\<lambda>e. \<not> is_framing e) (apply_view_axis h win a r axis)"
  unfolding apply_view_axis_def force_ortho_def lock_rotation_def axis_in_override_def
    axis_legacy_def
  by (intro em) simp_all

lemma emits_framing_configure:
  "emits (\<lambda>e. is_framing e \<longrightarrow> framed_on a e) (configure_silhouette_area h win a r axis)"
  unfolding configure_silhouette_area_def silhouette_styling_def hide_ui_first_def hide_overlays_def
    frame_selected_def hide_ui_def
  by (intro em emits_mono [OF emits_framing_apply]) (simp_all add: full_override_def)


lemma configure_frames:
  assumes acc: "accepts_override h" and keep: "host_keeps h (live win)"
    and lv: "live win (fst w)"
    and ok: "fst (configure_silhouette_area h win a r axis w) = Inr ()"
  shows "\<exists>evs. snd (snd (configure_silhouette_area h win a r axis w)) = snd w @ evs \<and>
     list_ex (framed_on a) evs"
proof -
  let ?t1 = "try_pass (setattr (Some a) ''type'' (VStr ''VIEW_3D''))"
  let ?t2 = "try_pass (setattr (Some a) ''ui_type'' (VStr ''VIEW_3D''))"
  let ?a = "apply_view_axis h win a r axis"
  let ?f = "frame_selected h win a r"
  let ?rh = "\<lambda>space. try_pass (seq (hide_ui space) (try_pass (call h (TagRedraw a))))"
  let ?K = "\<lambda>space. seqs [silhouette_styling space, hide_ui_first space, ?a, ?f, ?a, ?rh space]"
  define w2 where "w2 = snd (?t2 (snd (?t1 w)))"
  have c0: "configure_silhouette_area h win a r axis w = bind (active_space a) ?K w2"
    unfolding configure_silhouette_area_def w2_def by (simp add: seq_ok_app try_pass_ok)
  obtain sp where e1: "configure_silhouette_area h win a r axis w = ?K sp w2"
    using bind_ro_success [OF readonly_active_space, of a ?K w2 "()"] ok c0 by auto
  define pre where "pre = seq (silhouette_styling sp) (seq (hide_ui_first sp) ?a)"
  define post where "post = seq ?a (?rh sp)"
  define w5 where "w5 = snd (pre w2)"
  define w6 where "w6 = snd (?f w5)"
  have oks: "\<And>x. fst (silhouette_styling sp x) = Inr ()" "\<And>x. fst (hide_ui_first sp x) = Inr ()"
    "\<And>x. fst (?f x) = Inr ()"
    unfolding silhouette_styling_def hide_ui_first_def frame_selected_def
    by (rule try_pass_ok)+
  have fin: "snd (configure_silhouette_area h win a r axis w) = snd (post w6)"
    unfolding e1 w6_def w5_def pre_def post_def
    by (simp add: seq_ok_app oks apply_view_axis_ok try_pass_ok)
  have wk: "write_keeps (live win)" by (rule write_keeps_live)
  have "live win (fst w2)" unfolding w2_def
    by (intro preservesD [OF preserves_try_pass [OF preserves_setattr [OF wk]]] lv)
      (simp_all add: addon_write_def)
  moreover have "preserves (live win) pre" unfolding pre_def
    by (intro pr preserves_silhouette_styling preserves_hide_ui_first preserves_apply_view_axis
        keep wk)
  ultimately have l5: "live win (fst w5)" unfolding w5_def by (rule preservesD [rotated])
  have "emits (\<lambda>e. True) (seq ?t1 ?t2)" by (intro em) simp_all
  moreover have "w2 = snd (seq ?t1 ?t2 w)" unfolding w2_def by (simp add: seq_ok_app try_pass_ok)
  ultimately obtain e0 where e0: "snd w2 = snd w @ e0" using emits_true by blast
  have "emits (\<lambda>e. True) pre" unfolding pre_def silhouette_styling_def hide_ui_first_def
      hide_overlays_def
    by (intro em emits_apply_view_axis) simp_all
  then obtain e1 where e1: "snd w5 = snd w2 @ e1" unfolding w5_def using emits_true by blast
  obtain e2 where e2: "snd w6 = snd w5 @ e2" "list_ex (framed_on a) e2"
    unfolding w6_def using frame_selected_calls [OF acc l5] by blast
  have "emits (\<lambda>e. True) post" unfolding post_def
    by (intro em emits_apply_view_axis emits_hide_ui) simp_all
  then obtain e3 where e3: "snd (snd (post w6)) = snd w6 @ e3" using emits_true by blast
  show ?thesis
    by (rule exI [of _ "e0 @ e1 @ e2 @ e3"]) (use fin e0 e1 e2 e3 in simp)
qed


lemma emits_split_vertical_kind:
  "emits (\<lambda>e. is_split_event e \<or> is_report e) (split_vertical h area)"
  unfolding split_vertical_def Let_def by (intro em) simp_all

lemma emits_split_left_loop_kind:
  "emits (\<lambda>e. is_split_event e \<or> is_report e) (split_left_loop h l rs)"
  by (induction rs) (auto simp: split_in_left_def Let_def intro!: em)

lemma emits_split_left_kind:
  "emits (\<lambda>e. is_split_event e \<or> is_report e) (split_left h l)"
  unfolding split_left_def by (intro em emits_split_left_loop_kind) simp_all

lemma split_event_not_framing: "is_split_event e \<or> is_report e \<Longrightarrow> \<not> is_framing e"
  by (cases e rule: is_framing.cases) auto

lemma emits_framing_pair:
  "emits (\<lambda>e. is_framing e \<longrightarrow> framed_on tp e \<or> framed_on bt e) (configure_pair h win tp rt bt rb)"
  unfolding configure_pair_def
  by (intro em emits_mono [OF emits_framing_configure] emits_mono [OF emits_framing_apply]) simp_all

lemma configure_pair_frames:
  assumes acc: "accepts_override h" and keep: "host_keeps h (live win)"
    and lv: "live win (fst w)"
    and ok: "fst (configure_pair h win tp rt bt rb w) = Inr ()"
  shows "\<exists>evs. snd (snd (configure_pair h win tp rt bt rb w)) = snd w @ evs \<and>
     list_all (\<lambda>e. is_framing e \<longrightarrow> framed_on tp e \<or> framed_on bt e) evs \<and>
     list_ex (framed_on tp) evs \<and> list_ex (framed_on bt) evs"
proof -
  let ?c1 = "configure_silhouette_area h win tp rt ''FRONT''"
  let ?c2 = "configure_silhouette_area h win bt rb ''RIGHT''"
  define k where "k = seq (apply_view_axis h win tp rt ''FRONT'')
    (seq (apply_view_axis h win bt rb ''RIGHT'') (ret ()))"
  let ?w1 = "snd (?c1 w)"
  let ?w2 = "snd (?c2 ?w1)"
  have def: "configure_pair h win tp rt bt rb = seq ?c1 (seq ?c2 k)"
    by (simp add: configure_pair_def k_def)
  have ok1: "fst (?c1 w) = Inr ()" and 1: "configure_pair h win tp rt bt rb w = seq ?c2 k ?w1"
    using seq_success [of ?c1 "seq ?c2 k" w "()"] ok unfolding def by simp_all
  have ok2: "fst (?c2 ?w1) = Inr ()" and 2: "configure_pair h win tp rt bt rb w = k ?w2"
    using seq_success [of ?c2 k ?w1 "()"] ok 1 by simp_all
  have l1: "live win (fst ?w1)"
    by (rule preservesD [OF preserves_configure [OF keep write_keeps_live] lv])
  obtain e1 where e1: "snd ?w1 = snd w @ e1" "list_ex (framed_on tp) e1"
    using configure_frames [OF acc keep lv ok1] by blast
  obtain e2 where e2: "snd ?w2 = snd ?w1 @ e2" "list_ex (framed_on bt) e2"
    using configure_frames [OF acc keep l1 ok2] by blast
  have "emits (\<lambda>e. True) k" unfolding k_def by (intro em emits_apply_view_axis) simp_all
  then obtain e3 where e3: "snd (snd (k ?w2)) = snd ?w2 @ e3" using emits_true by blast
  obtain evs where evs: "snd (snd (configure_pair h win tp rt bt rb w)) = snd w @ evs"
    "list_all (\<lambda>e. is_framing e \<longrightarrow> framed_on tp e \<or> framed_on bt e) evs"
    using emitsD [OF emits_framing_pair] by blast
  have "evs = e1 @ e2 @ e3" using evs(1) e1(1) e2(1) e3 2 by simp
  then show ?thesis using evs e1 e2 by (intro exI [of _ evs]) auto
qed

lemma emits_framing_rest:
  "emits (\<lambda>e. \<not> is_framing e)
     (seqs [try_pass (bind (active_space tp) hide_ui), try_pass (bind (active_space bt) hide_ui),
            distance_backoff tp bt])"
  by (intro em emits_hide_ui emits_distance_backoff) simp_all

lemma deferred_finish_frames:
  assumes acc: "accepts_override h" and keep: "host_keeps h (live win)"
    and lv: "live win (fst w)"
    and ok: "fst (deferred_finish h win tp rt bt rb w) = Inr ()"
  shows "\<exists>evs. snd (snd (deferred_finish h win tp rt bt rb w)) = snd w @ evs \<and>
     list_all (\<lambda>e. is_framing e \<longrightarrow> framed_on tp e \<or> framed_on bt e) evs \<and>
     list_ex (framed_on tp) evs \<and> list_ex (framed_on bt) evs"
proof -
  define k where "k = seqs [try_pass (bind (active_space tp) hide_ui),
        try_pass (bind (active_space bt) hide_ui), distance_backoff tp bt]"
  have def: "deferred_finish h win tp rt bt rb = seq (configure_pair h win tp rt bt rb) k"
    by (simp add: deferred_finish_def k_def)
  let ?w1 = "snd (configure_pair h win tp rt bt rb w)"
  have okp: "fst (configure_pair h win tp rt bt rb w) = Inr ()"
    and eq: "deferred_finish h win tp rt bt rb w = k ?w1"
    using seq_success [of "configure_pair h win tp rt bt rb" k w "()"] ok unfolding def by auto
  obtain e1 where e1: "snd ?w1 = snd w @ e1"
    "list_all (\<lambda>e. is_framing e \<longrightarrow> framed_on tp e \<or> framed_on bt e) e1"
    "list_ex (framed_on tp) e1" "list_ex (framed_on bt) e1"
    using configure_pair_frames [OF acc keep lv okp] by blast
  obtain e2 where e2: "snd (snd (k ?w1)) = snd ?w1 @ e2" "list_all (\<lambda>e. \<not> is_framing e) e2"
    using emitsD [OF emits_framing_rest] unfolding k_def by blast
  have e2': "list_all (\<lambda>e. is_framing e \<longrightarrow> framed_on tp e \<or> framed_on bt e) e2"
    using e2(2) by (simp add: list_all_iff)
  show ?thesis
    by (rule exI [of _ "e1 @ e2"]) (use eq e1 e2(1) e2' in simp)
qed

lemma deferred_frames:
  assumes acc: "accepts_override h" and keep: "host_keeps h (live nw)"
    and lv: "live nw (fst w)"
    and ok: "fst (deferred_setup_body h nw w) = Inr None"
  shows "\<exists>tp rt bt rb ws evs.
     deferred_setup_body h nw w = seq (deferred_finish h nw tp rt bt rb) (ret None) ws \<and>
     snd (snd (deferred_setup_body h nw w)) = snd w @ evs \<and>
     list_all (\<lambda>e. is_framing e \<longrightarrow> framed_on tp e \<or> framed_on bt e) evs \<and>
     list_ex (framed_on tp) evs \<and> list_ex (framed_on bt) evs"
proof -
  obtain a r tp rt bt rb where
    eq: "deferred_setup_body h nw w =
       seq (deferred_finish h nw tp rt bt rb) (ret None) (snd (deferred_split h nw a r w))"
    using deferred_body_success [OF ok] by blast
  let ?ws = "snd (deferred_split h nw a r w)"
  have okf: "fst (deferred_finish h nw tp rt bt rb ?ws) = Inr ()"
    and eq': "deferred_setup_body h nw w = (Inr None, snd (deferred_finish h nw tp rt bt rb ?ws))"
    using seq_success [of "deferred_finish h nw tp rt bt rb" "ret None" ?ws None] ok
    unfolding eq by auto
  have ls: "live nw (fst ?ws)"
    by (rule preservesD [OF preserves_deferred_split [OF keep] lv])
  obtain e0 where e0: "snd ?ws = snd w @ e0" "list_all is_split_event e0"
    using emitsD [OF emits_deferred_split] by blast
  have e0': "list_all (\<lambda>e. is_framing e \<longrightarrow> framed_on tp e \<or> framed_on bt e) e0"
    using e0(2) split_event_not_framing by (auto simp: list_all_iff)
  obtain e1 where e1: "snd (snd (deferred_finish h nw tp rt bt rb ?ws)) = snd ?ws @ e1"
    "list_all (\<lambda>e. is_framing e \<longrightarrow> framed_on tp e \<or> framed_on bt e) e1"
    "list_ex (framed_on tp) e1" "list_ex (framed_on bt) e1"
    using deferred_finish_frames [OF acc keep ls okf] by blast
  have lg: "snd (snd (deferred_setup_body h nw w)) = snd w @ e0 @ e1"
    unfolding eq' using e0(1) e1(1) by simp
  show ?thesis
    by (rule exI [of _ tp], rule exI [of _ rt], rule exI [of _ bt], rule exI [of _ rb],
        rule exI [of _ ?ws], rule exI [of _ "e0 @ e1"])
      (use eq lg e0' e1 in simp)
qed

lemma split_frames:
  assumes acc: "accepts_override h" and keep: "host_keeps h (live win)"
    and lv: "live win (fst w)"
    and ok: "fst (split_execute h ctx w) = Inr (FINISHED, Some (win, tp, rt, bt, rb))"
  shows "\<exists>evs. snd (snd (split_execute h ctx w)) = snd w @ evs \<and>
     list_all (\<lambda>e. is_framing e \<longrightarrow> framed_on tp e \<or> framed_on bt e) evs \<and>
     list_ex (framed_on tp) evs \<and> list_ex (framed_on bt) evs"
proof -
  obtain area area_left win' tp' rt' bt' rb' where
    c: "Some (win, tp, rt, bt, rb) = Some (win', tp', rt', bt', rb')"
    and eq0: "split_execute h ctx w =
        split_configure h win' tp' bt' (snd (split_left h area_left (snd (split_vertical h area w))))"
    using split_run [OF ok] by blast
  let ?w1 = "snd (split_vertical h area w)"
  let ?ws = "snd (split_left h area_left ?w1)"
  from c have eq: "split_execute h ctx w = split_configure h win tp bt ?ws" using eq0 by simp
  have s2: "fst (split_configure h win tp bt ?ws) = Inr (FINISHED, Some (win, tp, rt, bt, rb))"
    using ok eq by simp
  obtain rt' rb' where c': "Some (win, tp, rt, bt, rb) = Some (win, tp, rt', bt, rb')"
    and eq2: "split_configure h win tp bt ?ws =
       seq (configure_pair h win tp rt' bt rb')
         (seq (try_pass (call h (TimerRegister ''_post_fix'' 0.05)))
            (ret (FINISHED, Some (win, tp, rt', bt, rb')))) ?ws"
    using split_configure_success [OF s2] by blast
  define k where "k = seq (try_pass (call h (TimerRegister ''_post_fix'' 0.05)))
            (ret (FINISHED, Some (win, tp, rt, bt, rb)))"
  from c' have eq3: "split_configure h win tp bt ?ws = seq (configure_pair h win tp rt bt rb) k ?ws"
    using eq2 unfolding k_def by simp
  let ?w3 = "snd (configure_pair h win tp rt bt rb ?ws)"
  have okp: "fst (configure_pair h win tp rt bt rb ?ws) = Inr ()"
    and eq4: "split_configure h win tp bt ?ws = k ?w3"
    using seq_success [of "configure_pair h win tp rt bt rb" k ?ws
        "(FINISHED, Some (win, tp, rt, bt, rb))"] s2 unfolding eq3 by auto
  have l1: "live win (fst ?w1)" by (rule preservesD [OF preserves_split_vertical [OF keep] lv])
  have ls: "live win (fst ?ws)" by (rule preservesD [OF preserves_split_left [OF keep] l1])
  obtain e0 where e0: "snd ?w1 = snd w @ e0" "list_all (\<lambda>e. is_split_event e \<or> is_report e) e0"
    using emitsD [OF emits_split_vertical_kind] by blast
  obtain e1 where e1: "snd ?ws = snd ?w1 @ e1" "list_all (\<lambda>e. is_split_event e \<or> is_report e) e1"
    using emitsD [OF emits_split_left_kind] by blast
  obtain e2 where e2: "snd ?w3 = snd ?ws @ e2"
    "list_all (\<lambda>e. is_framing e \<longrightarrow> framed_on tp e \<or> framed_on bt e) e2"
    "list_ex (framed_on tp) e2" "list_ex (framed_on bt) e2"
    using configure_pair_frames [OF acc keep ls okp] by blast
  have "emits (\<lambda>e. \<not> is_framing e) k" unfolding k_def by (intro em) simp_all
  then obtain e3 where e3: "snd (snd (k ?w3)) = snd ?w3 @ e3" "list_all (\<lambda>e. \<not> is_framing e) e3"
    using emitsD by blast
  have lg: "snd (snd (split_execute h ctx w)) = snd w @ (e0 @ e1) @ e2 @ e3"
    unfolding eq eq4 using e0(1) e1(1) e2(1) e3(1) by simp
  have n01: "list_all (\<lambda>e. is_framing e \<longrightarrow> framed_on tp e \<or> framed_on bt e) (e0 @ e1)"
    using e0(2) e1(2) split_event_not_framing by (auto simp: list_all_iff)
  have n3: "list_all (\<lambda>e. is_framing e \<longrightarrow> framed_on tp e \<or> framed_on bt e) e3"
    using e3(2) by (simp add: list_all_iff)
  show ?thesis
    by (rule exI [of _ "(e0 @ e1) @ e2 @ e3"]) (use lg n01 n3 e2 in simp)
qed


lemma deferred_success_found:
  assumes "fst (deferred_setup_body h nw w) = Inr None"
  shows "\<exists>a r. fst (find_window_view3d_area nw w) = Inr (Some a, Some r)"
proof -
  obtain fa fr where f: "find_window_view3d_area nw w = (Inr (fa, fr), w)"
    using readonlyD [OF readonly_find, of nw w] assms
    by (cases "fst (find_window_view3d_area nw w)")
      (auto simp: deferred_setup_body_def bind_app split: prod.splits)
  have "fa \<noteq> None \<and> fr \<noteq> None"
    using f assms by (cases fa; cases fr) (auto simp: deferred_setup_body_def bind_app)
  then show ?thesis using f by auto
qed

lemma find_live:
  assumes "fst (find_window_view3d_area nw w) = Inr (Some a, r)"
  shows "live nw (fst w)"
proof (rule ccontr)
  assume "\<not> live nw (fst w)"
  then obtain n where n: "nw = Some n" "fst w n = None"
    by (cases nw) (auto simp: live_def)
  have "get_ref nw ''screen'' w = (Inl ReferenceError, w)"
    using n by (simp add: get_ref_def getattr_def bind_app lookup_def)
  then have "find_window_view3d_area nw w = (Inr (None, None), w)"
    by (simp add: find_window_view3d_area_def bind_app try_except_app ret_def)
  then show False using assms by simp
qed

lemma has_active_object_iff:
  "fst (has_active_object ctx w) = Inr True \<longleftrightarrow> active_object_set (fst w) ctx"
  unfolding has_active_object_def active_object_set_def get_ref_def getattr_def as_ref_def
  by (auto simp: bind_app ret_def throw_def split: sum.splits val.splits)

lemma dual_poll_iff:
  "fst (dual_poll ctx w) = Inr True \<longleftrightarrow>
     lookup (fst w) (Some ctx) ''mode'' = Inr (VStr ''OBJECT'') \<and> active_object_set (fst w) ctx"
  unfolding dual_poll_def getattr_def
  by (cases "lookup (fst w) (Some ctx) ''mode''")
    (auto simp: bind_app ret_def has_active_object_iff)

lemma split_poll_iff:
  "fst (split_poll ctx w) = Inr True \<longleftrightarrow>
     lookup (fst w) (Some ctx) ''mode'' = Inr (VStr ''OBJECT'') \<and> in_view3d (fst w) ctx \<and>
     active_object_set (fst w) ctx"
proof (cases "lookup (fst w) (Some ctx) ''mode'' = Inr (VStr ''OBJECT'')")
  case False
  then show ?thesis unfolding split_poll_def getattr_def
    by (cases "lookup (fst w) (Some ctx) ''mode''") (auto simp: bind_app ret_def)
next
  case True
  show ?thesis
  proof (cases "lookup (fst w) (Some ctx) ''area''")
    case (Inl e)
    then show ?thesis using True unfolding split_poll_def getattr_def in_view3d_def
      by (simp add: bind_app ret_def)
  next
    case (Inr v)
    show ?thesis
    proof (cases v)
      case (VRef ro)
      show ?thesis
      proof (cases ro)
        case None
        then show ?thesis using True Inr VRef unfolding split_poll_def getattr_def in_view3d_def
          by (simp add: bind_app ret_def)
      next
        case (Some a)
        then show ?thesis using True Inr VRef
          unfolding split_poll_def getattr_def in_view3d_def as_ref_def
          by (cases "lookup (fst w) (Some a) ''type''")
            (auto simp: bind_app ret_def has_active_object_iff)
      qed
    qed (use True Inr in \<open>simp_all add: split_poll_def getattr_def in_view3d_def as_ref_def
          bind_app ret_def throw_def\<close>)
  qed
qed

lemma polls_readonly: "snd (dual_poll ctx w) = w \<and> snd (split_poll ctx w) = w"
proof -
  have "readonly (has_active_object ctx)" unfolding has_active_object_def by (intro ro)
  then have "readonly (dual_poll ctx)" "readonly (split_poll ctx)"
    unfolding dual_poll_def split_poll_def by (intro ro | simp)+
  then show ?thesis unfolding readonly_def by blast
qed

lemma sim_accepts_override: "accepts_override sim_host"
  by (simp add: accepts_override_def sim_host_def sim_run_def)

lemma sim_run_live: "hp r \<noteq> None \<Longrightarrow> snd (sim_run c hp) r \<noteq> None"
  by (cases c) (auto simp: sim_run_def sim_split_def split: option.splits sum.splits val.splits)

lemma sim_keeps_live: "host_keeps sim_host (live ro)"
  unfolding host_keeps_def live_def sim_host_def
  by (cases ro) (simp_all add: sim_run_live)

lemma sim_live: "live (Some 1) sim_heap" "live (Some 2) sim_heap"
  by (simp_all add: live_def sim_heap_def sim_objs_def area_objs_def)

lemma sim_polls:
  "fst (dual_poll 0 (sim_heap, [])) = Inr True" "fst (split_poll 0 (sim_heap, [])) = Inr True"
  by code_simp+

lemma frame_selected_iff:
  "\<exists>evs. snd (snd (frame_selected h win a r w)) = snd w @ evs \<and>
     list_all (\<lambda>e. is_framing e \<longrightarrow> framed_on a e) evs \<and>
     (list_ex is_framing evs \<longleftrightarrow>
        (\<exists>screen. fst (getattr_default win ''screen'' (VRef None) w) = Inr screen \<and>
           fst (run h (OverrideEnter (full_override win screen a r)) (fst w)) = None))"
proof -
  obtain g where g: "getattr_default win ''screen'' (VRef None) w = (g, w)"
    using readonlyD [OF readonly_getattr_default] by blast
  show ?thesis
  proof (cases g)
    case (Inl e)
    then have "frame_selected h win a r w = (Inr (), w)"
      unfolding frame_selected_def using g by (simp add: try_pass_app bind_app)
    then show ?thesis using g Inl by (intro exI [of _ "[]"]) simp
  next
    case (Inr screen)
    let ?kw = "full_override win screen a r"
    let ?c = "Op ''view3d.view_selected'' (Temp ?kw) [(''use_all_regions'', VBool False)]"
    have fs: "snd (frame_selected h win a r w) = snd (with_override h ?kw (call h ?c) w)"
      unfolding frame_selected_def using g Inr by (simp add: try_pass_app bind_app)
    obtain res hp' where run: "run h (OverrideEnter ?kw) (fst w) = (res, hp')"
      by (cases "run h (OverrideEnter ?kw) (fst w)")
    show ?thesis
    proof (cases res)
      case None
      let ?w1 = "snd (call h (OverrideEnter ?kw) w)"
      let ?w2 = "snd (call h ?c ?w1)"
      let ?w3 = "snd (call h (OverrideExit ?kw) ?w2)"
      have enter: "fst (call h (OverrideEnter ?kw) w) = Inr ()"
        using run None by (simp add: call_def)
      have "snd (with_override h ?kw (call h ?c) w) = ?w3"
        unfolding with_override_def using enter
        by (simp add: seq_ok_app split: prod.splits sum.splits)
      then have "snd (snd (frame_selected h win a r w)) =
          snd w @ [Call (OverrideEnter ?kw), Call ?c, Call (OverrideExit ?kw)]"
        using fs by (simp add: call_log)
      moreover have "framed_on a (Call ?c)" "is_framing (Call ?c)"
        by (simp_all add: full_override_def)
      ultimately show ?thesis using g Inr run None
        by (intro exI [of _ "[Call (OverrideEnter ?kw), Call ?c, Call (OverrideExit ?kw)]"]) simp
    next
      case (Some e)
      have "call h (OverrideEnter ?kw) w = (Inl e, (hp', snd w @ [Call (OverrideEnter ?kw)]))"
        using run Some by (simp add: call_def)
      then have "snd (with_override h ?kw (call h ?c) w) = (hp', snd w @ [Call (OverrideEnter ?kw)])"
        unfolding with_override_def by (simp add: seq_app)
      then have "snd (snd (frame_selected h win a r w)) = snd w @ [Call (OverrideEnter ?kw)]"
        using fs by simp
      then show ?thesis using g Inr run Some
        by (intro exI [of _ "[Call (OverrideEnter ?kw)]"]) simp
    qed
  qed
qed




section \<open>What configuring an area writes\<close>

lemma grows_refl: "grows hp hp"
  by (simp add: grows_def)

lemma grows_trans: "grows a b \<Longrightarrow> grows b c \<Longrightarrow> grows a c"
  unfolding grows_def by metis

lemma exposes_mem: "exposes hp r nms \<Longrightarrow> nm \<in> set nms \<Longrightarrow> exposes hp r [nm]"
  by (auto simp: exposes_def list_all_iff split: option.splits)

lemma grows_exposes: "grows hp hp' \<Longrightarrow> exposes hp r [nm] \<Longrightarrow> exposes hp' r [nm]"
  unfolding grows_def by blast

lemma grows_upd:
  assumes "hp r = Some ob" and "nm \<notin> set nav_attrs"
  shows "grows hp (hp(r \<mapsto> ob(nm \<mapsto> v)))"
  unfolding grows_def
proof (intro conjI allI impI)
  fix r' nm' assume "exposes hp r' [nm']"
  then show "exposes (hp(r \<mapsto> ob(nm \<mapsto> v))) r' [nm']"
    using assms(1) by (auto simp: exposes_def split: option.splits)
next
  fix ro nm' assume "nm' \<in> set nav_attrs"
  then have "nm' \<noteq> nm" using assms(2) by auto
  then show "lookup (hp(r \<mapsto> ob(nm \<mapsto> v))) ro nm' = lookup hp ro nm'"
    using assms(1) by (intro lookup_upd) simp_all
qed

lemma setattr_step:
  assumes "exposes hp r [nm]" and "nm \<notin> set nav_attrs"
  shows "\<exists>hp'. setattr (Some r) nm v (hp, lg) = (Inr (), (hp', lg @ [Write r nm v])) \<and> grows hp hp'"
proof -
  obtain ob old where ob: "hp r = Some ob" "ob nm = Some old"
    using assms(1) by (auto simp: exposes_def split: option.splits)
  have "setattr (Some r) nm v (hp, lg) = (Inr (), (hp(r \<mapsto> ob(nm \<mapsto> v)), lg @ [Write r nm v]))"
    using ob by (rule setattr_ok)
  moreover have "grows hp (hp(r \<mapsto> ob(nm \<mapsto> v)))"
    using ob(1) assms(2) by (rule grows_upd)
  ultimately show ?thesis by blast
qed

lemma try_setattr_step:
  assumes "nm \<notin> set nav_attrs"
  shows "\<exists>hp' evs. try_pass (setattr ro nm v) (hp, lg) = (Inr (), (hp', lg @ evs)) \<and> grows hp hp' \<and>
     set evs \<subseteq> {Write (the ro) nm v}"
proof (cases "\<exists>r. ro = Some r \<and> exposes hp r [nm]")
  case True
  then obtain r where r: "ro = Some r" "exposes hp r [nm]" by blast
  obtain hp' where "setattr (Some r) nm v (hp, lg) = (Inr (), (hp', lg @ [Write r nm v]))"
    "grows hp hp'"
    using setattr_step [OF r(2) assms] by blast
  then show ?thesis using r(1)
    by (intro exI [of _ hp'] exI [of _ "[Write r nm v]"]) (simp add: try_pass_app)
next
  case False
  then have "snd (setattr ro nm v (hp, lg)) = (hp, lg)"
    by (cases ro) (auto simp: setattr_def exposes_def split: option.splits)
  then show ?thesis
    by (intro exI [of _ hp] exI [of _ "[]"]) (simp add: try_pass_app grows_refl)
qed

lemma writes_ok:
  assumes "\<forall>t \<in> set ts. exposes hp (fst t) [fst (snd t)] \<and> fst (snd t) \<notin> set nav_attrs"
  shows "\<exists>hp'. seqs (map (\<lambda>t. setattr (Some (fst t)) (fst (snd t)) (snd (snd t))) ts) (hp, lg) =
       (Inr (), (hp', lg @ map (\<lambda>t. Write (fst t) (fst (snd t)) (snd (snd t))) ts)) \<and>
     grows hp hp'"
  using assms
proof (induction ts arbitrary: hp lg)
  case Nil
  then show ?case by (simp add: grows_refl)
next
  case (Cons t ts)
  let ?f = "\<lambda>t. setattr (Some (fst t)) (fst (snd t)) (snd (snd t))"
  let ?g = "\<lambda>t. Write (fst t) (fst (snd t)) (snd (snd t))"
  obtain hp1 where 1: "?f t (hp, lg) = (Inr (), (hp1, lg @ [?g t]))" and g1: "grows hp hp1"
    using setattr_step [of hp "fst t" "fst (snd t)" "snd (snd t)" lg] Cons.prems by auto
  have "\<forall>t \<in> set ts. exposes hp1 (fst t) [fst (snd t)] \<and> fst (snd t) \<notin> set nav_attrs"
    using Cons.prems grows_exposes [OF g1] by auto
  from Cons.IH [OF this, of "lg @ [?g t]"] obtain hp2 where
    2: "seqs (map ?f ts) (hp1, lg @ [?g t]) = (Inr (), (hp2, (lg @ [?g t]) @ map ?g ts))"
    and g2: "grows hp1 hp2" by blast
  have "seqs (map ?f (t # ts)) (hp, lg) = (Inr (), (hp2, lg @ map ?g (t # ts)))"
    using 1 2 by (simp add: seq_app)
  then show ?case using grows_trans [OF g1 g2] by blast
qed

lemma grows_active_space:
  assumes "grows hp hp'"
  shows "fst (active_space a (hp', lg')) = fst (active_space a (hp, lg))"
proof -
  have l: "\<And>ro. lookup hp' ro ''spaces'' = lookup hp ro ''spaces''"
    "\<And>ro. lookup hp' ro ''active'' = lookup hp ro ''active''"
    using assms by (simp_all add: grows_def nav_attrs_def)
  show ?thesis
    unfolding active_space_def get_ref_def getattr_def as_ref_def
    by (auto simp: bind_app l ret_def throw_def split: sum.splits val.splits)
qed

lemma get_ref_lookup:
  "lookup (fst w) ro nm = Inr (VRef x) \<Longrightarrow> get_ref ro nm w = (Inr x, w)"
  by (simp add: get_ref_def getattr_def as_ref_def bind_app ret_def)

lemma seqs_append: "seqs (xs @ ys) = seq (seqs xs) (seqs ys)"
proof (induction xs)
  case Nil
  show ?case by (rule ext) (simp add: seq_app)
next
  case (Cons x xs)
  show ?case by (rule ext) (simp add: Cons seq_app split: prod.splits sum.splits)
qed


lemma seq_assoc: "seq (seq a b) c = seq a (seq b c)"
  by (rule ext) (simp add: seq_app split: prod.splits sum.splits)

lemma seq_ret: "seq (ret ()) c = c"
  by (rule ext) (simp add: seq_app)

lemma seq_step: "m w = (Inr (), w') \<Longrightarrow> seq m n w = n w'"
  by (simp add: seq_app)

lemma styling_log:
  assumes sh: "lookup hp (Some s) ''shading'' = Inr (VRef (Some sh))"
    and ex: "\<forall>nm \<in> set [''type'', ''light'', ''color_type'', ''single_color'', ''background_type'',
                ''background_color'']. exposes hp sh [nm]"
  shows "\<exists>hp'. silhouette_styling (Some s) (hp, lg) =
       (Inr (), (hp', lg @ [Write sh ''type'' (VStr ''SOLID''), Write sh ''light'' (VStr ''FLAT''),
          Write sh ''color_type'' (VStr ''SINGLE''), Write sh ''single_color'' (VColor 0 0 0),
          Write sh ''background_type'' (VStr ''VIEWPORT''),
          Write sh ''background_color'' (VColor 1 1 1)])) \<and>
     grows hp hp'"
proof -
  define ts where "ts = [(sh, ''type'', VStr ''SOLID''), (sh, ''light'', VStr ''FLAT''),
    (sh, ''color_type'', VStr ''SINGLE''), (sh, ''single_color'', VColor 0 0 0),
    (sh, ''background_type'', VStr ''VIEWPORT''), (sh, ''background_color'', VColor 1 1 1)]"
  define m where "m = seqs (map (\<lambda>t. setattr (Some (fst t)) (fst (snd t)) (snd (snd t))) ts)"
  have "\<forall>t \<in> set ts. exposes hp (fst t) [fst (snd t)] \<and> fst (snd t) \<notin> set nav_attrs"
    using ex unfolding ts_def nav_attrs_def by simp
  from writes_ok [OF this, of lg] obtain hp' where
    1: "m (hp, lg) = (Inr (), (hp', lg @ map (\<lambda>t. Write (fst t) (fst (snd t)) (snd (snd t))) ts))"
    and g: "grows hp hp'" unfolding m_def by blast
  have shape: "silhouette_styling (Some s) =
      try_pass (bind (get_ref (Some s) ''shading'') (\<lambda>sh'. if sh' = Some sh then m else
        seqs
             [setattr sh' ''type'' (VStr ''SOLID''),
              setattr sh' ''light'' (VStr ''FLAT''),
              setattr sh' ''color_type'' (VStr ''SINGLE''),
              setattr sh' ''single_color'' (VColor 0 0 0),
              setattr sh' ''background_type'' (VStr ''VIEWPORT''),
              setattr sh' ''background_color'' (VColor 1 1 1)]))"
    unfolding silhouette_styling_def m_def ts_def
    by (intro arg_cong [where f = try_pass] arg_cong [where f = "bind _"] ext) simp
  have "silhouette_styling (Some s) (hp, lg) = (Inr (), snd (m (hp, lg)))"
    unfolding shape using get_ref_lookup [of "(hp, lg)" "Some s" "''shading''" "Some sh"] sh
    by (simp add: try_pass_app bind_app)
  then show ?thesis using 1 g unfolding ts_def by (intro exI [of _ hp']) simp
qed

lemma hide_ui_first_log:
  assumes ex: "\<forall>nm \<in> set [''show_region_header'', ''show_region_tool_header'',
                ''show_region_toolbar'', ''show_region_ui'', ''show_gizmo'',
                ''show_gizmo_navigate'']. exposes hp s [nm]"
    and ov: "lookup hp (Some s) ''overlay'' = Inr (VRef (Some ov))"
    and exo: "exposes hp ov [''show_overlays'']"
  shows "\<exists>hp' hud. hide_ui_first (Some s) (hp, lg) =
       (Inr (), (hp', lg @ [Write s ''show_region_header'' (VBool False),
          Write s ''show_region_tool_header'' (VBool False),
          Write s ''show_region_toolbar'' (VBool False),
          Write s ''show_region_ui'' (VBool False)] @ hud @
          [Write s ''show_gizmo'' (VBool False), Write s ''show_gizmo_navigate'' (VBool False),
           Write ov ''show_overlays'' (VBool False)])) \<and>
     set hud \<subseteq> {Write s ''show_region_hud'' (VBool False)} \<and> grows hp hp'"
proof -
  let ?f = "\<lambda>t. setattr (Some (fst t)) (fst (snd t)) (snd (snd t))"
  let ?g = "\<lambda>t. Write (fst t) (fst (snd t)) (snd (snd t))"
  define t4 where "t4 = [(s, ''show_region_header'', VBool False),
    (s, ''show_region_tool_header'', VBool False), (s, ''show_region_toolbar'', VBool False),
    (s, ''show_region_ui'', VBool False)]"
  define t2 where "t2 = [(s, ''show_gizmo'', VBool False), (s, ''show_gizmo_navigate'', VBool False)]"
  define m4 where "m4 = seqs (map ?f t4)"
  define m2 where "m2 = seqs (map ?f t2)"
  define hud where "hud = try_pass (setattr (Some s) ''show_region_hud'' (VBool False))"
  have shape: "hide_ui_first (Some s) =
      try_pass (seq m4 (seq hud (seq m2 (seq (hide_overlays (Some s)) (ret ())))))"
    unfolding hide_ui_first_def m4_def m2_def t4_def t2_def hud_def
    by (simp add: seq_assoc seq_ret)
  have "\<forall>t \<in> set t4. exposes hp (fst t) [fst (snd t)] \<and> fst (snd t) \<notin> set nav_attrs"
    using ex unfolding t4_def nav_attrs_def by simp
  from writes_ok [OF this, of lg] obtain hp1 where
    1: "m4 (hp, lg) = (Inr (), (hp1, lg @ map ?g t4))" and g1: "grows hp hp1"
    unfolding m4_def by blast
  obtain hp2 evs where 2: "hud (hp1, lg @ map ?g t4) = (Inr (), (hp2, (lg @ map ?g t4) @ evs))"
    and g2: "grows hp1 hp2" and evs: "set evs \<subseteq> {Write s ''show_region_hud'' (VBool False)}"
    using try_setattr_step [of "''show_region_hud''" "Some s" "VBool False" hp1 "lg @ map ?g t4"]
    unfolding hud_def nav_attrs_def by auto
  have g02: "grows hp hp2" using g1 g2 by (rule grows_trans)
  have "\<forall>t \<in> set t2. exposes hp2 (fst t) [fst (snd t)] \<and> fst (snd t) \<notin> set nav_attrs"
    using ex grows_exposes [OF g02] unfolding t2_def nav_attrs_def by simp
  from writes_ok [OF this, of "(lg @ map ?g t4) @ evs"] obtain hp3 where
    3: "m2 (hp2, (lg @ map ?g t4) @ evs) = (Inr (), (hp3, ((lg @ map ?g t4) @ evs) @ map ?g t2))"
    and g3: "grows hp2 hp3"
    unfolding m2_def by blast
  have g03: "grows hp hp3" using g02 g3 by (rule grows_trans)
  let ?lg3 = "((lg @ map ?g t4) @ evs) @ map ?g t2"
  have "lookup hp3 (Some s) ''overlay'' = Inr (VRef (Some ov))"
    using g03 ov by (simp add: grows_def nav_attrs_def)
  then have r: "get_ref (Some s) ''overlay'' (hp3, ?lg3) = (Inr (Some ov), (hp3, ?lg3))"
    using get_ref_lookup [of "(hp3, ?lg3)" "Some s" "''overlay''" "Some ov"] by simp
  obtain hp4 where 4: "setattr (Some ov) ''show_overlays'' (VBool False) (hp3, ?lg3) =
      (Inr (), (hp4, ?lg3 @ [Write ov ''show_overlays'' (VBool False)]))" and g4: "grows hp3 hp4"
    using setattr_step [OF grows_exposes [OF g03 exo], of "VBool False" ?lg3]
    unfolding nav_attrs_def by auto
  have 5: "hide_overlays (Some s) (hp3, ?lg3) =
      (Inr (), (hp4, ?lg3 @ [Write ov ''show_overlays'' (VBool False)]))"
    unfolding hide_overlays_def using r 4 by (simp add: bind_app)
  have "hide_ui_first (Some s) (hp, lg) =
      (Inr (), (hp4, ?lg3 @ [Write ov ''show_overlays'' (VBool False)]))"
  proof -
    have s1: "\<And>n :: unit comp. seq m4 n (hp, lg) = n (hp1, lg @ map ?g t4)"
      using 1 by (simp add: seq_app)
    have s2: "\<And>n :: unit comp. seq hud n (hp1, lg @ map ?g t4) = n (hp2, (lg @ map ?g t4) @ evs)"
      using 2 by (simp add: seq_app)
    have s3: "\<And>n :: unit comp. seq m2 n (hp2, (lg @ map ?g t4) @ evs) = n (hp3, ?lg3)"
      using 3 by (simp add: seq_app)
    have s4: "\<And>n :: unit comp. seq (hide_overlays (Some s)) n (hp3, ?lg3) =
        n (hp4, ?lg3 @ [Write ov ''show_overlays'' (VBool False)])"
      using 5 by (simp add: seq_app)
    show ?thesis unfolding shape by (simp only: try_pass_app s1 s2 s3 s4 ret_app snd_conv)
  qed
  moreover have "grows hp hp4" using g03 g4 by (rule grows_trans)
  ultimately show ?thesis using evs unfolding t4_def t2_def
    by (intro exI [of _ hp4] exI [of _ evs]) simp
qed

lemma emits_configure_event:
  "emits is_configure_event (configure_silhouette_area h win a r axis)"
  unfolding configure_silhouette_area_def silhouette_styling_def hide_ui_first_def hide_overlays_def
    frame_selected_def hide_ui_def apply_view_axis_def force_ortho_def lock_rotation_def
    axis_in_override_def axis_legacy_def
  by (intro em) simp_all


lemma configure_log:
  assumes sp: "fst (active_space a w) = Inr (Some s)"
    and sh: "lookup (fst w) (Some s) ''shading'' = Inr (VRef (Some sh))"
    and ov: "lookup (fst w) (Some s) ''overlay'' = Inr (VRef (Some ov))"
    and exs: "exposes (fst w) sh [''type'', ''light'', ''color_type'', ''single_color'',
                ''background_type'', ''background_color'']"
    and exu: "exposes (fst w) s [''show_region_header'', ''show_region_tool_header'',
                ''show_region_toolbar'', ''show_region_ui'', ''show_gizmo'', ''show_gizmo_navigate'']"
    and exo: "exposes (fst w) ov [''show_overlays'']"
  shows "\<exists>pre hud rest.
     snd (snd (configure_silhouette_area h win a r axis w)) =
       snd w @ pre @
       [Write sh ''type'' (VStr ''SOLID''), Write sh ''light'' (VStr ''FLAT''),
        Write sh ''color_type'' (VStr ''SINGLE''), Write sh ''single_color'' (VColor 0 0 0),
        Write sh ''background_type'' (VStr ''VIEWPORT''),
        Write sh ''background_color'' (VColor 1 1 1),
        Write s ''show_region_header'' (VBool False),
        Write s ''show_region_tool_header'' (VBool False),
        Write s ''show_region_toolbar'' (VBool False),
        Write s ''show_region_ui'' (VBool False)] @ hud @
       [Write s ''show_gizmo'' (VBool False), Write s ''show_gizmo_navigate'' (VBool False),
        Write ov ''show_overlays'' (VBool False)] @ rest \<and>
     set pre \<subseteq> {Write a ''type'' (VStr ''VIEW_3D''), Write a ''ui_type'' (VStr ''VIEW_3D'')} \<and>
     set hud \<subseteq> {Write s ''show_region_hud'' (VBool False)} \<and>
     list_all is_configure_event rest"
proof -
  obtain hp lg where w: "w = (hp, lg)" by (cases w)
  let ?t1 = "try_pass (setattr (Some a) ''type'' (VStr ''VIEW_3D''))"
  let ?t2 = "try_pass (setattr (Some a) ''ui_type'' (VStr ''VIEW_3D''))"
  define k where "k = seqs [apply_view_axis h win a r axis, frame_selected h win a r,
     apply_view_axis h win a r axis,
     try_pass (seq (hide_ui (Some s)) (try_pass (call h (TagRedraw a))))]"
  define K where "K = (\<lambda>space. seqs
                [silhouette_styling space,
                 hide_ui_first space,
                 apply_view_axis h win a r axis,
                 frame_selected h win a r,
                 apply_view_axis h win a r axis,
                 try_pass (seq (hide_ui space) (try_pass (call h (TagRedraw a))))])"
  have Ks: "K (Some s) = seq (silhouette_styling (Some s)) (seq (hide_ui_first (Some s)) k)"
    unfolding K_def k_def by simp
  have shape: "configure_silhouette_area h win a r axis = seq ?t1 (seq ?t2 (bind (active_space a) K))"
    unfolding configure_silhouette_area_def K_def by simp
  obtain hp1 ev1 where 1: "?t1 (hp, lg) = (Inr (), (hp1, lg @ ev1))" and g1: "grows hp hp1"
    and ev1: "set ev1 \<subseteq> {Write a ''type'' (VStr ''VIEW_3D'')}"
    using try_setattr_step [of "''type''" "Some a" "VStr ''VIEW_3D''" hp lg]
    unfolding nav_attrs_def by auto
  obtain hp2 ev2 where 2: "?t2 (hp1, lg @ ev1) = (Inr (), (hp2, (lg @ ev1) @ ev2))"
    and g2: "grows hp1 hp2" and ev2: "set ev2 \<subseteq> {Write a ''ui_type'' (VStr ''VIEW_3D'')}"
    using try_setattr_step [of "''ui_type''" "Some a" "VStr ''VIEW_3D''" hp1 "lg @ ev1"]
    unfolding nav_attrs_def by auto
  have g02: "grows hp hp2" using g1 g2 by (rule grows_trans)
  let ?lg2 = "(lg @ ev1) @ ev2"
  have "fst (active_space a (hp2, ?lg2)) = Inr (Some s)"
    using grows_active_space [OF g02, of a ?lg2 lg] sp w by simp
  then have 3: "active_space a (hp2, ?lg2) = (Inr (Some s), (hp2, ?lg2))"
    using readonlyD [OF readonly_active_space, of a "(hp2, ?lg2)"] by simp
  have "lookup hp2 (Some s) ''shading'' = Inr (VRef (Some sh))"
    using g02 sh w by (simp add: grows_def nav_attrs_def)
  moreover have "\<forall>nm \<in> set [''type'', ''light'', ''color_type'', ''single_color'',
      ''background_type'', ''background_color'']. exposes hp2 sh [nm]"
    using exs w grows_exposes [OF g02] exposes_mem [of hp sh _] by auto
  ultimately obtain hp3 where 4: "silhouette_styling (Some s) (hp2, ?lg2) =
       (Inr (), (hp3, ?lg2 @ [Write sh ''type'' (VStr ''SOLID''), Write sh ''light'' (VStr ''FLAT''),
          Write sh ''color_type'' (VStr ''SINGLE''), Write sh ''single_color'' (VColor 0 0 0),
          Write sh ''background_type'' (VStr ''VIEWPORT''),
          Write sh ''background_color'' (VColor 1 1 1)]))" and g3: "grows hp2 hp3"
    using styling_log [where hp = hp2 and s = s and sh = sh and lg = "?lg2"] by blast
  let ?six = "[Write sh ''type'' (VStr ''SOLID''), Write sh ''light'' (VStr ''FLAT''),
          Write sh ''color_type'' (VStr ''SINGLE''), Write sh ''single_color'' (VColor 0 0 0),
          Write sh ''background_type'' (VStr ''VIEWPORT''),
          Write sh ''background_color'' (VColor 1 1 1)]"
  have g03: "grows hp hp3" using g02 g3 by (rule grows_trans)
  have "lookup hp3 (Some s) ''overlay'' = Inr (VRef (Some ov))"
    using g03 ov w by (simp add: grows_def nav_attrs_def)
  moreover have "\<forall>nm \<in> set [''show_region_header'', ''show_region_tool_header'',
                ''show_region_toolbar'', ''show_region_ui'', ''show_gizmo'',
                ''show_gizmo_navigate'']. exposes hp3 s [nm]"
    using exu w grows_exposes [OF g03] exposes_mem [of hp s _] by auto
  moreover have "exposes hp3 ov [''show_overlays'']"
    using exo w grows_exposes [OF g03] by simp
  ultimately obtain hp4 hud where 5: "hide_ui_first (Some s) (hp3, ?lg2 @ ?six) =
       (Inr (), (hp4, (?lg2 @ ?six) @ [Write s ''show_region_header'' (VBool False),
          Write s ''show_region_tool_header'' (VBool False),
          Write s ''show_region_toolbar'' (VBool False),
          Write s ''show_region_ui'' (VBool False)] @ hud @
          [Write s ''show_gizmo'' (VBool False), Write s ''show_gizmo_navigate'' (VBool False),
           Write ov ''show_overlays'' (VBool False)]))"
    and hud: "set hud \<subseteq> {Write s ''show_region_hud'' (VBool False)}"
    using hide_ui_first_log [where hp = hp3 and s = s and ov = ov and lg = "?lg2 @ ?six"] by blast
  let ?lg4 = "(?lg2 @ ?six) @ [Write s ''show_region_header'' (VBool False),
          Write s ''show_region_tool_header'' (VBool False),
          Write s ''show_region_toolbar'' (VBool False),
          Write s ''show_region_ui'' (VBool False)] @ hud @
          [Write s ''show_gizmo'' (VBool False), Write s ''show_gizmo_navigate'' (VBool False),
           Write ov ''show_overlays'' (VBool False)]"
  have "emits is_configure_event k"
    unfolding k_def frame_selected_def hide_ui_def hide_overlays_def apply_view_axis_def
      force_ortho_def lock_rotation_def axis_in_override_def axis_legacy_def
    by (intro em) simp_all
  then obtain rest where rest: "snd (snd (k (hp4, ?lg4))) = ?lg4 @ rest"
    "list_all is_configure_event rest"
    using emitsD [of is_configure_event k "(hp4, ?lg4)"] by auto
  have s1: "\<And>n :: unit comp. seq ?t1 n (hp, lg) = n (hp1, lg @ ev1)"
    using 1 by (simp add: seq_app)
  have s2: "\<And>n :: unit comp. seq ?t2 n (hp1, lg @ ev1) = n (hp2, ?lg2)"
    using 2 by (simp add: seq_app)
  have s3: "bind (active_space a) K (hp2, ?lg2) = K (Some s) (hp2, ?lg2)"
    using 3 by (simp add: bind_app)
  have s4: "\<And>n :: unit comp. seq (silhouette_styling (Some s)) n (hp2, ?lg2) = n (hp3, ?lg2 @ ?six)"
    using 4 by (simp add: seq_app)
  have s5: "\<And>n :: unit comp. seq (hide_ui_first (Some s)) n (hp3, ?lg2 @ ?six) = n (hp4, ?lg4)"
    using 5 by (simp add: seq_app)
  have "configure_silhouette_area h win a r axis w = k (hp4, ?lg4)"
    unfolding shape w by (simp only: s1 s2 s3 Ks s4 s5)
  then have "snd (snd (configure_silhouette_area h win a r axis w)) = ?lg4 @ rest"
    using rest(1) by simp
  then show ?thesis using ev1 ev2 hud rest(2) w
    by (intro exI [of _ "ev1 @ ev2"] exI [of _ hud] exI [of _ rest]) auto
qed


lemma sim_configure_hyps:
  "fst (active_space 10 (sim_heap, [])) = Inr (Some 13) \<and>
   lookup sim_heap (Some 13) ''shading'' = Inr (VRef (Some 14)) \<and>
   lookup sim_heap (Some 13) ''overlay'' = Inr (VRef (Some 15)) \<and>
   exposes sim_heap 14 [''type'', ''light'', ''color_type'', ''single_color'',
               ''background_type'', ''background_color''] \<and>
   exposes sim_heap 13 [''show_region_header'', ''show_region_tool_header'',
               ''show_region_toolbar'', ''show_region_ui'', ''show_gizmo'', ''show_gizmo_navigate''] \<and>
   exposes sim_heap 15 [''show_overlays'']"
  by code_simp

text \<open>
  Claim C5. Whatever the host, \<open>_configure_silhouette_area\<close> only assigns the area's editor
  type, shading and interface toggles and the view's perspective and rotation, and only calls
  the axis and framing operators and a redraw request: it draws nothing itself. When the
  area's active space exposes its shading, its overlay and the toggles, the assignments
  begin, after the area's editor type, with shading \<open>SOLID\<close>, \<open>FLAT\<close>, \<open>SINGLE\<close>, black,
  \<open>VIEWPORT\<close>, white, then the four region toggles, the HUD toggle if the space has one,
  the two gizmo toggles and \<open>overlay.show_overlays\<close>, all set to \<open>False\<close>.
\<close>

theorem configure_sets_toggles:
  "(\<exists>evs. snd (snd (configure_silhouette_area h win a r axis w)) = snd w @ evs \<and>
      list_all is_configure_event evs) \<and>
   (fst (active_space a w) = Inr (Some s) \<and>
    lookup (fst w) (Some s) ''shading'' = Inr (VRef (Some sh)) \<and>
    lookup (fst w) (Some s) ''overlay'' = Inr (VRef (Some ov)) \<and>
    exposes (fst w) sh [''type'', ''light'', ''color_type'', ''single_color'',
                ''background_type'', ''background_color''] \<and>
    exposes (fst w) s [''show_region_header'', ''show_region_tool_header'',
                ''show_region_toolbar'', ''show_region_ui'', ''show_gizmo'', ''show_gizmo_navigate''] \<and>
    exposes (fst w) ov [''show_overlays''] \<longrightarrow>
     (\<exists>pre hud rest.
        snd (snd (configure_silhouette_area h win a r axis w)) =
          snd w @ pre @
          [Write sh ''type'' (VStr ''SOLID''), Write sh ''light'' (VStr ''FLAT''),
           Write sh ''color_type'' (VStr ''SINGLE''), Write sh ''single_color'' (VColor 0 0 0),
           Write sh ''background_type'' (VStr ''VIEWPORT''),
           Write sh ''background_color'' (VColor 1 1 1),
           Write s ''show_region_header'' (VBool False),
           Write s ''show_region_tool_header'' (VBool False),
           Write s ''show_region_toolbar'' (VBool False),
           Write s ''show_region_ui'' (VBool False)] @ hud @
          [Write s ''show_gizmo'' (VBool False), Write s ''show_gizmo_navigate'' (VBool False),
           Write ov ''show_overlays'' (VBool False)] @ rest \<and>
        set pre \<subseteq> {Write a ''type'' (VStr ''VIEW_3D''), Write a ''ui_type'' (VStr ''VIEW_3D'')} \<and>
        set hud \<subseteq> {Write s ''show_region_hud'' (VBool False)} \<and>
        list_all is_configure_event rest))"
proof (intro conjI impI)
  show "\<exists>evs. snd (snd (configure_silhouette_area h win a r axis w)) = snd w @ evs \<and>
      list_all is_configure_event evs"
    using emitsD [OF emits_configure_event] by blast
next
  assume "fst (active_space a w) = Inr (Some s) \<and>
    lookup (fst w) (Some s) ''shading'' = Inr (VRef (Some sh)) \<and>
    lookup (fst w) (Some s) ''overlay'' = Inr (VRef (Some ov)) \<and>
    exposes (fst w) sh [''type'', ''light'', ''color_type'', ''single_color'',
                ''background_type'', ''background_color''] \<and>
    exposes (fst w) s [''show_region_header'', ''show_region_tool_header'',
                ''show_region_toolbar'', ''show_region_ui'', ''show_gizmo'', ''show_gizmo_navigate''] \<and>
    exposes (fst w) ov [''show_overlays'']"
  then show "\<exists>pre hud rest.
        snd (snd (configure_silhouette_area h win a r axis w)) =
          snd w @ pre @
          [Write sh ''type'' (VStr ''SOLID''), Write sh ''light'' (VStr ''FLAT''),
           Write sh ''color_type'' (VStr ''SINGLE''), Write sh ''single_color'' (VColor 0 0 0),
           Write sh ''background_type'' (VStr ''VIEWPORT''),
           Write sh ''background_color'' (VColor 1 1 1),
           Write s ''show_region_header'' (VBool False),
           Write s ''show_region_tool_header'' (VBool False),
           Write s ''show_region_toolbar'' (VBool False),
           Write s ''show_region_ui'' (VBool False)] @ hud @
          [Write s ''show_gizmo'' (VBool False), Write s ''show_gizmo_navigate'' (VBool False),
           Write ov ''show_overlays'' (VBool False)] @ rest \<and>
        set pre \<subseteq> {Write a ''type'' (VStr ''VIEW_3D''), Write a ''ui_type'' (VStr ''VIEW_3D'')} \<and>
        set hud \<subseteq> {Write s ''show_region_hud'' (VBool False)} \<and>
        list_all is_configure_event rest"
    using configure_log [of a w s sh ov h win r axis] by blast
qed

theorem configure_sets_toggles_witness:
  "fst (active_space 10 (sim_heap, [])) = Inr (Some 13) \<and>
    lookup sim_heap (Some 13) ''shading'' = Inr (VRef (Some 14)) \<and>
    lookup sim_heap (Some 13) ''overlay'' = Inr (VRef (Some 15)) \<and>
    exposes sim_heap 14 [''type'', ''light'', ''color_type'', ''single_color'',
                ''background_type'', ''background_color''] \<and>
    exposes sim_heap 13 [''show_region_header'', ''show_region_tool_header'',
                ''show_region_toolbar'', ''show_region_ui'', ''show_gizmo'', ''show_gizmo_navigate''] \<and>
    exposes sim_heap 15 [''show_overlays''] \<and>
   (\<exists>pre hud rest.
        snd (snd (configure_silhouette_area sim_host (Some 1) 10 11 ''FRONT'' (sim_heap, []))) =
          pre @
          [Write 14 ''type'' (VStr ''SOLID''), Write 14 ''light'' (VStr ''FLAT''),
           Write 14 ''color_type'' (VStr ''SINGLE''), Write 14 ''single_color'' (VColor 0 0 0),
           Write 14 ''background_type'' (VStr ''VIEWPORT''),
           Write 14 ''background_color'' (VColor 1 1 1),
           Write 13 ''show_region_header'' (VBool False),
           Write 13 ''show_region_tool_header'' (VBool False),
           Write 13 ''show_region_toolbar'' (VBool False),
           Write 13 ''show_region_ui'' (VBool False)] @ hud @
          [Write 13 ''show_gizmo'' (VBool False), Write 13 ''show_gizmo_navigate'' (VBool False),
           Write 15 ''show_overlays'' (VBool False)] @ rest \<and>
        set pre \<subseteq> {Write 10 ''type'' (VStr ''VIEW_3D''), Write 10 ''ui_type'' (VStr ''VIEW_3D'')} \<and>
        set hud \<subseteq> {Write 13 ''show_region_hud'' (VBool False)} \<and>
        list_all is_configure_event rest)"
  using configure_sets_toggles [of sim_host "Some 1" 10 11 "''FRONT''" "(sim_heap, [])" 13 14 15]
    sim_configure_hyps
  by simp

section \<open>The rotation fix of the timer callback\<close>

lemma grows_region_3d:
  assumes "grows hp hp'"
  shows "fst (region_3d a (hp', lg')) = fst (region_3d a (hp, lg))"
proof -
  have l: "\<And>ro. lookup hp' ro ''spaces'' = lookup hp ro ''spaces''"
    "\<And>ro. lookup hp' ro ''active'' = lookup hp ro ''active''"
    "\<And>ro. lookup hp' ro ''region_3d'' = lookup hp ro ''region_3d''"
    using assms by (simp_all add: grows_def nav_attrs_def)
  show ?thesis
    unfolding region_3d_def active_space_def get_ref_def getattr_def as_ref_def
    by (auto simp: bind_app l ret_def throw_def split: sum.splits val.splits)
qed

lemma z90_half_turn:
  "\<bar>0.70710678 - cos (pi / 4)\<bar> < 1 / 10 ^ 8 \<and> \<bar>0.70710678 - sin (pi / 4)\<bar> < 1 / 10 ^ 8"
proof -
  have "(1.41421356 :: real)\<^sup>2 < 2" by (simp add: power2_eq_square)
  then have lo: "1.41421356 < sqrt 2" by (rule real_less_rsqrt)
  have "(2 :: real) < 1.41421358\<^sup>2" by (simp add: power2_eq_square)
  then have hi: "sqrt 2 < 1.41421358" by (intro real_less_lsqrt) simp_all
  have "\<bar>0.70710678 - sqrt 2 / 2\<bar> < 1 / 10 ^ 8" using lo hi by (simp add: abs_less_iff)
  then show ?thesis by (simp add: cos_45 sin_45)
qed

lemma fix_identical_step:
  assumes imp: "fst (run h (Import ''mathutils'') (fst w)) = None"
    and qt: "fst (view_rotation_of tp (snd (call h (Import ''mathutils'') w))) = Inr qt"
    and qb: "fst (view_rotation_of bt (snd (call h (Import ''mathutils'') w))) = Inr qb"
    and r: "fst (region_3d bt (snd (call h (Import ''mathutils'') w))) = Inr (Some r)"
    and ex: "exposes (fst (snd (call h (Import ''mathutils'') w))) r [''view_perspective'']"
  shows "(same_rotation qt qb \<longrightarrow>
      (\<exists>ob. fst (snd (call h (Import ''mathutils'') w)) r = Some ob \<and>
         fix_identical h tp bt w =
           (Inr (), ((fst (snd (call h (Import ''mathutils'') w)))
                      (r \<mapsto> ob(''view_rotation'' \<mapsto> VQuat (quat_mul h z90 qt),
                                ''view_perspective'' \<mapsto> VStr ''ORTHO'')),
                    snd (snd (call h (Import ''mathutils'') w)) @
                      [Write r ''view_rotation'' (VQuat (quat_mul h z90 qt)),
                       Write r ''view_perspective'' (VStr ''ORTHO'')])))) \<and>
    (\<not> same_rotation qt qb \<longrightarrow>
       fix_identical h tp bt w = (Inr (), snd (call h (Import ''mathutils'') w)))"
proof -
  define w1 where "w1 = snd (call h (Import ''mathutils'') w)"
  obtain hp1 lg1 where w1: "w1 = (hp1, lg1)" by (cases w1)
  have c: "call h (Import ''mathutils'') w = (Inr (), w1)"
    using imp unfolding w1_def
    by (cases "run h (Import ''mathutils'') (fst w)") (simp add: call_def)
  have ro: "readonly (view_rotation_of tp)" "readonly (view_rotation_of bt)"
    unfolding view_rotation_of_def by (intro ro)+
  have vt: "view_rotation_of tp w1 = (Inr qt, w1)" and vb: "view_rotation_of bt w1 = (Inr qb, w1)"
    using readonlyD [OF ro(1), of w1] readonlyD [OF ro(2), of w1] qt qb unfolding w1_def by simp_all
  have r3: "region_3d bt w1 = (Inr (Some r), w1)"
    using readonlyD [OF readonly_region_3d, of bt w1] r unfolding w1_def by simp
  let ?body = "\<lambda>qt qb. if same_rotation qt qb
                   then seq (bind (region_3d bt)
                               (\<lambda>r3d. setattr r3d ''view_rotation'' (VQuat (quat_mul h z90 qt))))
                          (bind (region_3d bt)
                             (\<lambda>r3d. setattr r3d ''view_perspective'' (VStr ''ORTHO'')))
                   else ret ()"
  have shape: "fix_identical h tp bt w = (Inr (), snd (?body qt qb w1))"
    unfolding fix_identical_def by (simp add: try_pass_app seq_app bind_app c vt vb)
  show ?thesis
  proof (intro conjI impI)
    assume "\<not> same_rotation qt qb"
    then show "fix_identical h tp bt w = (Inr (), snd (call h (Import ''mathutils'') w))"
      unfolding shape by (simp add: w1_def)
  next
    assume same: "same_rotation qt qb"
    have "get_quat (Some r) ''view_rotation'' w1 = (Inr qb, w1)"
      using vb r3 unfolding view_rotation_of_def by (simp add: bind_app)
    then obtain ob where ob: "hp1 r = Some ob" "ob ''view_rotation'' = Some (VQuat qb)"
      unfolding get_quat_def getattr_def as_quat_def lookup_def w1
      by (auto simp: bind_app ret_def throw_def split: option.splits sum.splits val.splits)
    let ?q = "VQuat (quat_mul h z90 qt)"
    let ?hp2 = "hp1(r \<mapsto> ob(''view_rotation'' \<mapsto> ?q))"
    let ?lg2 = "lg1 @ [Write r ''view_rotation'' ?q]"
    have 1: "setattr (Some r) ''view_rotation'' ?q (hp1, lg1) = (Inr (), (?hp2, ?lg2))"
      using ob by (rule setattr_ok)
    have g: "grows hp1 ?hp2" using ob(1) by (rule grows_upd) (simp add: nav_attrs_def)
    have "fst (region_3d bt (?hp2, ?lg2)) = Inr (Some r)"
      using grows_region_3d [OF g, of bt ?lg2 lg1] r3 w1 by simp
    then have r3': "region_3d bt (?hp2, ?lg2) = (Inr (Some r), (?hp2, ?lg2))"
      using readonlyD [OF readonly_region_3d, of bt "(?hp2, ?lg2)"] by simp
    obtain old where old: "ob ''view_perspective'' = Some old"
      using ex ob(1) unfolding w1_def [symmetric] w1 by (auto simp: exposes_def)
    have 2: "setattr (Some r) ''view_perspective'' (VStr ''ORTHO'') (?hp2, ?lg2) =
        (Inr (), (?hp2(r \<mapsto> (ob(''view_rotation'' \<mapsto> ?q))(''view_perspective'' \<mapsto> VStr ''ORTHO'')),
                  ?lg2 @ [Write r ''view_perspective'' (VStr ''ORTHO'')]))"
      by (rule setattr_ok [where old = old]) (simp_all add: old)
    have "?body qt qb w1 =
        (Inr (), (hp1(r \<mapsto> ob(''view_rotation'' \<mapsto> ?q, ''view_perspective'' \<mapsto> VStr ''ORTHO'')),
                  lg1 @ [Write r ''view_rotation'' ?q, Write r ''view_perspective'' (VStr ''ORTHO'')]))"
      using same r3 r3' 1 2 unfolding w1 by (simp add: seq_app bind_app)
    then show "\<exists>ob. fst (snd (call h (Import ''mathutils'') w)) r = Some ob \<and>
         fix_identical h tp bt w =
           (Inr (), ((fst (snd (call h (Import ''mathutils'') w)))
                      (r \<mapsto> ob(''view_rotation'' \<mapsto> VQuat (quat_mul h z90 qt),
                                ''view_perspective'' \<mapsto> VStr ''ORTHO'')),
                    snd (snd (call h (Import ''mathutils'') w)) @
                      [Write r ''view_rotation'' (VQuat (quat_mul h z90 qt)),
                       Write r ''view_perspective'' (VStr ''ORTHO'')]))"
      unfolding shape w1_def [symmetric] using ob(1) w1 by (intro exI [of _ ob]) simp
  qed
qed

lemma post_fix_shape:
  "post_fix h (win, tp, rt, bt, rb) w =
     (Inr None,
      snd (seqs [fix_identical h tp bt, bind (active_space tp) hide_ui,
                 bind (active_space bt) hide_ui]
             (snd (apply_view_axis h win bt rb ''RIGHT''
                (snd (apply_view_axis h win tp rt ''FRONT'' w))))))"
proof -
  define k where "k = seqs [fix_identical h tp bt, bind (active_space tp) hide_ui,
                 bind (active_space bt) hide_ui]"
  have "post_fix h (win, tp, rt, bt, rb) =
      seq (try_pass (seq (apply_view_axis h win tp rt ''FRONT'')
                       (seq (apply_view_axis h win bt rb ''RIGHT'') k))) (ret None)"
    unfolding post_fix_def k_def by simp
  then show ?thesis unfolding k_def [symmetric]
    by (simp add: seq_ok_app try_pass_ok apply_view_axis_ok try_pass_app)
qed


lemma same_rotation_iff:
  "same_rotation (a0, a1, a2, a3) (b0, b1, b2, b3) \<longleftrightarrow>
     \<bar>a0 - b0\<bar> < 1 / 100000 \<and> \<bar>a1 - b1\<bar> < 1 / 100000 \<and>
     \<bar>a2 - b2\<bar> < 1 / 100000 \<and> \<bar>a3 - b3\<bar> < 1 / 100000"
  by (simp add: same_rotation_def)

lemma sim_fix_hyps:
  "fst (run sim_host (Import ''mathutils'') sim_heap) = None \<and>
   fst (view_rotation_of 30 (sim_heap, [Call (Import ''mathutils'')])) = Inr (1, 0, 0, 0) \<and>
   fst (view_rotation_of 10 (sim_heap, [Call (Import ''mathutils'')])) = Inr (1, 0, 0, 0) \<and>
   fst (region_3d 10 (sim_heap, [Call (Import ''mathutils'')])) = Inr (Some 16) \<and>
   exposes sim_heap 16 [''view_perspective'']"
  by code_simp

lemma sim_import:
  "snd (call sim_host (Import ''mathutils'') (sim_heap, [])) =
     (sim_heap, [Call (Import ''mathutils'')])"
  by (simp add: call_def sim_host_def sim_run_def)

text \<open>
  Claim C10. \<open>_post_fix\<close> re-applies both axes and then runs the rotation fix. \<open>z90\<close> is
  \<open>(0.70710678, 0, 0, 0.70710678)\<close>, which is \<open>(cos (pi/4), 0, 0, sin (pi/4))\<close> to eight
  places: a turn by 90 degrees about Z. When the import succeeds, both rotations can be
  read and the bottom area's 3D region exposes \<open>view_perspective\<close>: if the two rotations
  differ by less than \<open>1e-5\<close> in every component, the fix assigns the host's product of \<open>z90\<close>
  and the top rotation to the bottom region's \<open>view_rotation\<close> and \<open>ORTHO\<close> to its
  \<open>view_perspective\<close>, and nothing else; if some component differs by \<open>1e-5\<close> or more, it
  assigns nothing. Components are taken as real numbers.
\<close>

theorem post_fix_rotation:
  "z90 = (0.70710678, 0, 0, 0.70710678) \<and>
   \<bar>0.70710678 - cos (pi / 4)\<bar> < 1 / 10 ^ 8 \<and> \<bar>0.70710678 - sin (pi / 4)\<bar> < 1 / 10 ^ 8 \<and>
   post_fix h (win, tp, rt, bt, rb) w0 =
     (Inr None,
      snd (seqs [fix_identical h tp bt, bind (active_space tp) hide_ui,
                 bind (active_space bt) hide_ui]
             (snd (apply_view_axis h win bt rb ''RIGHT''
                (snd (apply_view_axis h win tp rt ''FRONT'' w0)))))) \<and>
   (fst (run h (Import ''mathutils'') (fst w)) = None \<and>
    snd (call h (Import ''mathutils'') w) = w1 \<and>
    fst (view_rotation_of tp w1) = Inr (a0, a1, a2, a3) \<and>
    fst (view_rotation_of bt w1) = Inr (b0, b1, b2, b3) \<and>
    fst (region_3d bt w1) = Inr (Some r) \<and> exposes (fst w1) r [''view_perspective''] \<longrightarrow>
      (\<bar>a0 - b0\<bar> < 1 / 100000 \<and> \<bar>a1 - b1\<bar> < 1 / 100000 \<and>
       \<bar>a2 - b2\<bar> < 1 / 100000 \<and> \<bar>a3 - b3\<bar> < 1 / 100000 \<longrightarrow>
         (\<exists>ob. fst w1 r = Some ob \<and>
            fix_identical h tp bt w =
              (Inr (), ((fst w1)(r \<mapsto> ob(''view_rotation'' \<mapsto> VQuat (quat_mul h z90 (a0, a1, a2, a3)),
                                       ''view_perspective'' \<mapsto> VStr ''ORTHO'')),
                        snd w1 @ [Write r ''view_rotation'' (VQuat (quat_mul h z90 (a0, a1, a2, a3))),
                                  Write r ''view_perspective'' (VStr ''ORTHO'')])))) \<and>
      (1 / 100000 \<le> \<bar>a0 - b0\<bar> \<or> 1 / 100000 \<le> \<bar>a1 - b1\<bar> \<or>
       1 / 100000 \<le> \<bar>a2 - b2\<bar> \<or> 1 / 100000 \<le> \<bar>a3 - b3\<bar> \<longrightarrow>
         fix_identical h tp bt w = (Inr (), w1)))"
proof (intro conjI impI)
  show "z90 = (0.70710678, 0, 0, 0.70710678)" by (rule z90_def)
  show "\<bar>0.70710678 - cos (pi / 4)\<bar> < 1 / 10 ^ 8" "\<bar>0.70710678 - sin (pi / 4)\<bar> < 1 / 10 ^ 8"
    using z90_half_turn by blast+
  show "post_fix h (win, tp, rt, bt, rb) w0 =
     (Inr None,
      snd (seqs [fix_identical h tp bt, bind (active_space tp) hide_ui,
                 bind (active_space bt) hide_ui]
             (snd (apply_view_axis h win bt rb ''RIGHT''
                (snd (apply_view_axis h win tp rt ''FRONT'' w0))))))"
    by (rule post_fix_shape)
next
  assume hyp: "fst (run h (Import ''mathutils'') (fst w)) = None \<and>
    snd (call h (Import ''mathutils'') w) = w1 \<and>
    fst (view_rotation_of tp w1) = Inr (a0, a1, a2, a3) \<and>
    fst (view_rotation_of bt w1) = Inr (b0, b1, b2, b3) \<and>
    fst (region_3d bt w1) = Inr (Some r) \<and> exposes (fst w1) r [''view_perspective'']"
  then have w1: "w1 = snd (call h (Import ''mathutils'') w)" by simp
  from hyp have h: "fst (run h (Import ''mathutils'') (fst w)) = None"
    "fst (view_rotation_of tp w1) = Inr (a0, a1, a2, a3)"
    "fst (view_rotation_of bt w1) = Inr (b0, b1, b2, b3)"
    "fst (region_3d bt w1) = Inr (Some r)" "exposes (fst w1) r [''view_perspective'']"
    by simp_all
  note step = fix_identical_step [of h w tp "(a0, a1, a2, a3)" bt "(b0, b1, b2, b3)" r,
      unfolded w1 [symmetric] same_rotation_iff, OF h]
  {
    assume "\<bar>a0 - b0\<bar> < 1 / 100000 \<and> \<bar>a1 - b1\<bar> < 1 / 100000 \<and>
       \<bar>a2 - b2\<bar> < 1 / 100000 \<and> \<bar>a3 - b3\<bar> < 1 / 100000"
    then show "\<exists>ob. fst w1 r = Some ob \<and>
            fix_identical h tp bt w =
              (Inr (), ((fst w1)(r \<mapsto> ob(''view_rotation'' \<mapsto> VQuat (quat_mul h z90 (a0, a1, a2, a3)),
                                       ''view_perspective'' \<mapsto> VStr ''ORTHO'')),
                        snd w1 @ [Write r ''view_rotation'' (VQuat (quat_mul h z90 (a0, a1, a2, a3))),
                                  Write r ''view_perspective'' (VStr ''ORTHO'')]))"
      by (rule step [THEN conjunct1, THEN mp])
  }
  {
    assume "1 / 100000 \<le> \<bar>a0 - b0\<bar> \<or> 1 / 100000 \<le> \<bar>a1 - b1\<bar> \<or>
       1 / 100000 \<le> \<bar>a2 - b2\<bar> \<or> 1 / 100000 \<le> \<bar>a3 - b3\<bar>"
    then have "\<not> (\<bar>a0 - b0\<bar> < 1 / 100000 \<and> \<bar>a1 - b1\<bar> < 1 / 100000 \<and>
       \<bar>a2 - b2\<bar> < 1 / 100000 \<and> \<bar>a3 - b3\<bar> < 1 / 100000)" by linarith
    then show "fix_identical h tp bt w = (Inr (), w1)"
      by (rule step [THEN conjunct2, THEN mp])
  }
qed

theorem post_fix_rotation_witness:
  "fst (run sim_host (Import ''mathutils'') sim_heap) = None \<and>
   fst (view_rotation_of 30 (sim_heap, [Call (Import ''mathutils'')])) = Inr (1, 0, 0, 0) \<and>
   fst (view_rotation_of 10 (sim_heap, [Call (Import ''mathutils'')])) = Inr (1, 0, 0, 0) \<and>
   fst (region_3d 10 (sim_heap, [Call (Import ''mathutils'')])) = Inr (Some 16) \<and>
   exposes sim_heap 16 [''view_perspective''] \<and>
   snd (snd (fix_identical sim_host 30 10 (sim_heap, []))) =
     [Call (Import ''mathutils''), Write 16 ''view_rotation'' (VQuat (0.70710678, 0, 0, 0.70710678)),
      Write 16 ''view_perspective'' (VStr ''ORTHO'')]"
proof -
  have "\<exists>ob. fix_identical sim_host 30 10 (sim_heap, []) =
      (Inr (), (sim_heap(16 \<mapsto> ob(''view_rotation'' \<mapsto> VQuat (quat_mul sim_host z90 (1, 0, 0, 0)),
                              ''view_perspective'' \<mapsto> VStr ''ORTHO'')),
                [Call (Import ''mathutils''),
                 Write 16 ''view_rotation'' (VQuat (quat_mul sim_host z90 (1, 0, 0, 0))),
                 Write 16 ''view_perspective'' (VStr ''ORTHO'')]))"
    using post_fix_rotation [of sim_host None 30 31 10 11 "(sim_heap, [])" "(sim_heap, [])"
        "(sim_heap, [Call (Import ''mathutils'')])" 1 0 0 0 1 0 0 0 16] sim_fix_hyps sim_import
    by simp blast
  moreover have "quat_mul sim_host z90 (1, 0, 0, 0) = (0.70710678, 0, 0, 0.70710678)"
    by (simp add: sim_host_def hamilton_def z90_def)
  ultimately show ?thesis using sim_fix_hyps by auto
qed

section \<open>Two orthographic views\<close>

lemma first_of_type_type:
  "first_of_type t rs w = (Inr (Some a), w') \<Longrightarrow> lookup (fst w) (Some a) ''type'' = Inr (VStr t)"
  by (induction rs arbitrary: w w')
    (auto simp: bind_app getattr_def split: prod.splits sum.splits if_splits)

lemma find_type:
  assumes "fst (find_window_view3d_area nw w) = Inr (Some a, r)"
  shows "lookup (fst w) (Some a) ''type'' = Inr (VStr ''VIEW_3D'')"
  using assms
  unfolding find_window_view3d_area_def get_ref_def get_refs_def
    getattr_def as_ref_def as_refs_def
  by (auto simp: bind_app try_except_app
      split: prod.splits sum.splits option.splits val.splits if_splits
      dest: first_of_type_type ro_eq [OF readonly_first_of_type])

lemma addon_write_nav: "addon_write nm v \<Longrightarrow> nm \<notin> set nav_attrs"
  by (auto simp: addon_write_def nav_attrs_def)

lemma write_keeps_has_view: "write_keeps (has_view a)"
  unfolding write_keeps_def
proof (intro allI impI)
  fix hp r ob nm v
  assume aw: "addon_write nm v" and hv: "has_view a hp" and ob: "hp r = Some ob" "ob nm \<noteq> None"
  have g: "grows hp (hp(r \<mapsto> ob(nm \<mapsto> v)))"
    using ob(1) addon_write_nav [OF aw] by (rule grows_upd)
  have "fst (region_3d a (hp(r \<mapsto> ob(nm \<mapsto> v)), [])) = fst (region_3d a (hp, []))"
    by (rule grows_region_3d [OF g])
  then show "has_view a (hp(r \<mapsto> ob(nm \<mapsto> v)))"
    using hv grows_exposes [OF g] unfolding has_view_def
    by (auto split: sum.splits option.splits)
qed

lemma write_keeps_is_ortho: "write_keeps (is_ortho a)"
  unfolding write_keeps_def
proof (intro allI impI)
  fix hp r ob nm v
  assume aw: "addon_write nm v" and io: "is_ortho a hp" and ob: "hp r = Some ob" "ob nm \<noteq> None"
  have g: "grows hp (hp(r \<mapsto> ob(nm \<mapsto> v)))"
    using ob(1) addon_write_nav [OF aw] by (rule grows_upd)
  have e: "fst (region_3d a (hp(r \<mapsto> ob(nm \<mapsto> v)), [])) = fst (region_3d a (hp, []))"
    by (rule grows_region_3d [OF g])
  obtain r3 where r3: "fst (region_3d a (hp, [])) = Inr (Some r3)"
    "lookup hp (Some r3) ''view_perspective'' = Inr (VStr ''ORTHO'')"
    using io unfolding is_ortho_def by (auto split: sum.splits option.splits)
  have "lookup (hp(r \<mapsto> ob(nm \<mapsto> v))) (Some r3) ''view_perspective'' = Inr (VStr ''ORTHO'')"
  proof (cases "nm = ''view_perspective''")
    case True
    then have "v = VStr ''ORTHO''" using aw by (simp add: addon_write_def)
    then show ?thesis using r3(2) ob True by (auto simp: lookup_def split: option.splits)
  next
    case False
    then show ?thesis using r3(2) ob(1) by (subst lookup_upd) simp_all
  qed
  then show "is_ortho a (hp(r \<mapsto> ob(nm \<mapsto> v)))"
    unfolding is_ortho_def e r3(1) by simp
qed

lemma region_3d_fst: "fst (region_3d a (hp, lg)) = fst (region_3d a (hp, lg'))"
  by (rule grows_region_3d [OF grows_refl])

lemma force_ortho_step:
  assumes "has_view a (fst w)"
  shows "\<exists>r3 hp'. fst (region_3d a w) = Inr (Some r3) \<and>
     force_ortho a w = (Inr (), (hp', snd w @ [Write r3 ''view_perspective'' (VStr ''ORTHO'')])) \<and>
     is_ortho a hp' \<and> has_view a hp'"
proof -
  obtain hp lg where w: "w = (hp, lg)" by (cases w)
  obtain r3 where r3: "fst (region_3d a (hp, [])) = Inr (Some r3)"
    and ex: "exposes hp r3 [''view_perspective'']"
    using assms unfolding has_view_def w by (auto split: sum.splits option.splits)
  have r: "region_3d a w = (Inr (Some r3), w)"
    using readonlyD [OF readonly_region_3d, of a w] r3 region_3d_fst [of a hp lg "[]"] w by simp
  obtain ob old where ob: "hp r3 = Some ob" "ob ''view_perspective'' = Some old"
    using ex by (auto simp: exposes_def split: option.splits)
  let ?hp' = "hp(r3 \<mapsto> ob(''view_perspective'' \<mapsto> VStr ''ORTHO''))"
  have s: "setattr (Some r3) ''view_perspective'' (VStr ''ORTHO'') (hp, lg) =
      (Inr (), (?hp', lg @ [Write r3 ''view_perspective'' (VStr ''ORTHO'')]))"
    using ob by (rule setattr_ok)
  have f: "force_ortho a w = (Inr (), (?hp', lg @ [Write r3 ''view_perspective'' (VStr ''ORTHO'')]))"
    unfolding force_ortho_def using r s w by (simp add: try_pass_app bind_app)
  have g: "grows hp ?hp'" using ob(1) by (rule grows_upd) (simp add: nav_attrs_def)
  have e: "fst (region_3d a (?hp', [])) = Inr (Some r3)"
    using grows_region_3d [OF g, of a "[]" "[]"] r3 by simp
  have "is_ortho a ?hp'" unfolding is_ortho_def e by (simp add: lookup_def)
  moreover have "has_view a ?hp'" unfolding has_view_def e using grows_exposes [OF g ex] by simp
  ultimately show ?thesis using r f w by (intro exI [of _ r3] exI [of _ ?hp']) simp
qed


lemma axis_attempt_ok:
  "fst (try_except
       (bind (getattr_default win ''screen'' (VRef None))
          (\<lambda>screen. with_override h (full_override win screen a r)
             (axis_in_override h (full_override win screen a r) axis)))
       (axis_legacy h (override None (Some a) (Some r)) axis) w) = Inr ()"
  unfolding axis_legacy_def
  by (auto simp: try_pass_app try_except_app split: prod.splits sum.splits)

lemma apply_first_event:
  assumes "has_view a (fst w)"
  shows "\<exists>r3 rest. fst (region_3d a w) = Inr (Some r3) \<and>
     snd (snd (apply_view_axis h win a r axis w)) =
       snd w @ Write r3 ''view_perspective'' (VStr ''ORTHO'') # rest \<and>
     list_ex (axis_on a axis) rest"
proof -
  let ?mid = "try_except
       (bind (getattr_default win ''screen'' (VRef None))
          (\<lambda>screen. with_override h (full_override win screen a r)
             (axis_in_override h (full_override win screen a r) axis)))
       (axis_legacy h (override None (Some a) (Some r)) axis)"
  obtain r3 hp' where r3: "fst (region_3d a w) = Inr (Some r3)"
    and f: "force_ortho a w = (Inr (), (hp', snd w @ [Write r3 ''view_perspective'' (VStr ''ORTHO'')]))"
    using force_ortho_step [OF assms] by blast
  let ?w1 = "(hp', snd w @ [Write r3 ''view_perspective'' (VStr ''ORTHO'')])"
  let ?w2 = "snd (?mid ?w1)"
  obtain e2 where e2: "snd ?w2 = snd ?w1 @ e2" "list_ex (axis_on a axis) e2"
    using axis_attempt_calls by blast
  have "emits (\<lambda>e. True) (lock_rotation a)" by (rule emits_lock_rotation) simp
  then obtain e3 where e3: "snd (snd (lock_rotation a ?w2)) = snd ?w2 @ e3"
    using emits_true by blast
  have s1: "\<And>n :: unit comp. seq (force_ortho a) n w = n ?w1" using f by (simp add: seq_app)
  have "apply_view_axis h win a r axis w = lock_rotation a ?w2"
    unfolding apply_view_axis_def s1 by (rule seq_ok_app [OF axis_attempt_ok])
  then show ?thesis using r3 e2 e3
    by (intro exI [of _ r3] exI [of _ "e2 @ e3"]) simp
qed

lemma preserves_apply_tail:
  assumes "host_keeps h I" and "write_keeps I"
  shows "preserves I (seq (try_except
       (bind (getattr_default win ''screen'' (VRef None))
          (\<lambda>screen. with_override h (full_override win screen a r)
             (axis_in_override h (full_override win screen a r) axis)))
       (axis_legacy h (override None (Some a) (Some r)) axis)) (lock_rotation a))"
  unfolding lock_rotation_def axis_in_override_def axis_legacy_def
  by (intro pr assms) (simp_all add: addon_write_def)

lemma apply_establishes:
  assumes hv: "has_view a (fst w)" and ko: "host_keeps h (is_ortho a)"
    and kv: "host_keeps h (has_view a)"
  shows "is_ortho a (fst (snd (apply_view_axis h win a r axis w))) \<and>
     has_view a (fst (snd (apply_view_axis h win a r axis w)))"
proof -
  let ?k = "seq (try_except
       (bind (getattr_default win ''screen'' (VRef None))
          (\<lambda>screen. with_override h (full_override win screen a r)
             (axis_in_override h (full_override win screen a r) axis)))
       (axis_legacy h (override None (Some a) (Some r)) axis)) (lock_rotation a)"
  obtain r3 hp' where
    f: "force_ortho a w = (Inr (), (hp', snd w @ [Write r3 ''view_perspective'' (VStr ''ORTHO'')]))"
    and io: "is_ortho a hp'" and hv': "has_view a hp'"
    using force_ortho_step [OF hv] by blast
  let ?w1 = "(hp', snd w @ [Write r3 ''view_perspective'' (VStr ''ORTHO'')])"
  have eq: "apply_view_axis h win a r axis w = ?k ?w1"
    unfolding apply_view_axis_def using f by (simp add: seq_app)
  have "is_ortho a (fst (snd (?k ?w1)))"
    using preservesD [OF preserves_apply_tail [OF ko write_keeps_is_ortho], of ?w1] io by simp
  moreover have "has_view a (fst (snd (?k ?w1)))"
    using preservesD [OF preserves_apply_tail [OF kv write_keeps_has_view], of ?w1] hv' by simp
  ultimately show ?thesis unfolding eq by simp
qed

lemma configure_pair_ortho:
  assumes ok: "fst (configure_pair h win tp rt bt rb w) = Inr ()"
    and hv: "has_view tp (fst w)" "has_view bt (fst w)"
    and kv: "host_keeps h (has_view tp)" "host_keeps h (has_view bt)"
    and ko: "host_keeps h (is_ortho tp)" "host_keeps h (is_ortho bt)"
  shows "is_ortho tp (fst (snd (configure_pair h win tp rt bt rb w))) \<and>
     is_ortho bt (fst (snd (configure_pair h win tp rt bt rb w)))"
proof -
  let ?c1 = "configure_silhouette_area h win tp rt ''FRONT''"
  let ?c2 = "configure_silhouette_area h win bt rb ''RIGHT''"
  let ?a1 = "apply_view_axis h win tp rt ''FRONT''"
  let ?a2 = "apply_view_axis h win bt rb ''RIGHT''"
  define k where "k = seq ?a1 (seq ?a2 (ret ()))"
  let ?w1 = "snd (?c1 w)"
  let ?w2 = "snd (?c2 ?w1)"
  let ?w3 = "snd (?a1 ?w2)"
  let ?w4 = "snd (?a2 ?w3)"
  have def: "configure_pair h win tp rt bt rb = seq ?c1 (seq ?c2 k)"
    by (simp add: configure_pair_def k_def)
  have 1: "configure_pair h win tp rt bt rb w = seq ?c2 k ?w1"
    using seq_success [of ?c1 "seq ?c2 k" w "()"] ok unfolding def by simp
  have 2: "configure_pair h win tp rt bt rb w = k ?w2"
    using seq_success [of ?c2 k ?w1 "()"] ok 1 by simp
  have 3: "configure_pair h win tp rt bt rb w = (Inr (), ?w4)"
    unfolding 2 k_def by (simp add: seq_ok_app apply_view_axis_ok)
  note wh = write_keeps_has_view
  have t1: "has_view tp (fst ?w1)" and b1: "has_view bt (fst ?w1)"
    using preservesD [OF preserves_configure [OF kv(1) wh] hv(1)]
      preservesD [OF preserves_configure [OF kv(2) wh] hv(2)] by simp_all
  have t2: "has_view tp (fst ?w2)" and b2: "has_view bt (fst ?w2)"
    using preservesD [OF preserves_configure [OF kv(1) wh] t1]
      preservesD [OF preserves_configure [OF kv(2) wh] b1] by simp_all
  have o3: "is_ortho tp (fst ?w3)" using apply_establishes [OF t2 ko(1) kv(1)] by simp
  have b3: "has_view bt (fst ?w3)"
    using preservesD [OF preserves_apply_view_axis [OF kv(2) wh] b2] by simp
  have o4: "is_ortho bt (fst ?w4)" using apply_establishes [OF b3 ko(2) kv(2)] by simp
  have o4': "is_ortho tp (fst ?w4)"
    using preservesD [OF preserves_apply_view_axis [OF ko(1) write_keeps_is_ortho] o3] by simp
  show ?thesis unfolding 3 using o4 o4' by simp
qed

lemma deferred_finish_ortho:
  assumes ok: "fst (deferred_finish h win tp rt bt rb w) = Inr ()"
    and hv: "has_view tp (fst w)" "has_view bt (fst w)"
    and kv: "host_keeps h (has_view tp)" "host_keeps h (has_view bt)"
    and ko: "host_keeps h (is_ortho tp)" "host_keeps h (is_ortho bt)"
  shows "is_ortho tp (fst (snd (deferred_finish h win tp rt bt rb w))) \<and>
     is_ortho bt (fst (snd (deferred_finish h win tp rt bt rb w)))"
proof -
  define k where "k = seqs [try_pass (bind (active_space tp) hide_ui),
        try_pass (bind (active_space bt) hide_ui), distance_backoff tp bt]"
  have def: "deferred_finish h win tp rt bt rb = seq (configure_pair h win tp rt bt rb) k"
    by (simp add: deferred_finish_def k_def)
  let ?w1 = "snd (configure_pair h win tp rt bt rb w)"
  have okp: "fst (configure_pair h win tp rt bt rb w) = Inr ()"
    and eq: "deferred_finish h win tp rt bt rb w = k ?w1"
    using seq_success [of "configure_pair h win tp rt bt rb" k w "()"] ok unfolding def by auto
  have p: "\<And>a. preserves (is_ortho a) k" unfolding k_def
    by (intro pr preserves_hide_ui preserves_distance_backoff write_keeps_is_ortho)
  show ?thesis unfolding eq
    using configure_pair_ortho [OF okp hv kv ko] preservesD [OF p] by blast
qed

lemma split_configure_ortho:
  assumes ok: "fst (split_configure h win tp bt w) = Inr (FINISHED, c)"
    and hv: "has_view tp (fst w)" "has_view bt (fst w)"
    and kv: "host_keeps h (has_view tp)" "host_keeps h (has_view bt)"
    and ko: "host_keeps h (is_ortho tp)" "host_keeps h (is_ortho bt)"
  shows "is_ortho tp (fst (snd (split_configure h win tp bt w))) \<and>
     is_ortho bt (fst (snd (split_configure h win tp bt w)))"
proof -
  obtain rt rb where c: "c = Some (win, tp, rt, bt, rb)"
    and eq: "split_configure h win tp bt w =
       seq (configure_pair h win tp rt bt rb)
         (seq (try_pass (call h (TimerRegister ''_post_fix'' 0.05)))
            (ret (FINISHED, Some (win, tp, rt, bt, rb)))) w"
    using split_configure_success [OF ok] by blast
  define k where "k = seq (try_pass (call h (TimerRegister ''_post_fix'' 0.05)))
            (ret (FINISHED, Some (win, tp, rt, bt, rb)))"
  let ?w1 = "snd (configure_pair h win tp rt bt rb w)"
  have okp: "fst (configure_pair h win tp rt bt rb w) = Inr ()"
    and eq': "split_configure h win tp bt w = k ?w1"
    using seq_success [of "configure_pair h win tp rt bt rb" k w "(FINISHED, c)"] ok
    unfolding eq k_def by auto
  have p1: "preserves (is_ortho tp) k" unfolding k_def by (intro pr ko)
  have p2: "preserves (is_ortho bt) k" unfolding k_def by (intro pr ko)
  show ?thesis unfolding eq'
    using configure_pair_ortho [OF okp hv kv ko] preservesD [OF p1] preservesD [OF p2] by blast
qed


lemma ko_apply: "emits keeps_ortho (apply_view_axis h win a r axis)"
  unfolding apply_view_axis_def axis_in_override_def axis_legacy_def force_ortho_def
    lock_rotation_def
  by (intro em) simp_all

lemma ko_configure: "emits keeps_ortho (configure_silhouette_area h win a r axis)"
  unfolding configure_silhouette_area_def silhouette_styling_def hide_ui_first_def hide_overlays_def
    frame_selected_def hide_ui_def
  by (intro em ko_apply) simp_all

lemma ko_configure_pair: "emits keeps_ortho (configure_pair h win a r b rb)"
  unfolding configure_pair_def by (intro em ko_apply ko_configure)

lemma ko_split_configure: "emits keeps_ortho (split_configure h win a b)"
  unfolding split_configure_def cancel_def by (intro em ko_configure_pair) auto

lemma split_event_keeps_ortho: "is_split_event e \<or> is_report e \<Longrightarrow> keeps_ortho e"
  by (cases e rule: keeps_ortho.cases) auto

lemma ko_split_after_vertical:
  "emits keeps_ortho (split_after_vertical h win scr area before)"
  unfolding split_after_vertical_def Let_def cancel_def
  by (intro em emits_mono [OF emits_split_left_kind] ko_split_configure)
    (auto intro!: em ko_split_configure split_event_keeps_ortho)

lemma ko_split_execute: "emits keeps_ortho (split_execute h ctx)"
  unfolding split_execute_def cancel_def
  by (intro em emits_mono [OF emits_split_vertical_kind] ko_split_after_vertical)
    (auto intro!: split_event_keeps_ortho)

lemma ko_deferred_finish: "emits keeps_ortho (deferred_finish h win a r b rb)"
  unfolding deferred_finish_def hide_ui_def hide_overlays_def distance_backoff_def Let_def
    as_float_def
  by (intro em ko_configure_pair) (auto intro!: em split: val.splits)

lemma ko_deferred_setup_body: "emits keeps_ortho (deferred_setup_body h nw)"
  unfolding deferred_setup_body_def Let_def
  by (intro em ko_deferred_finish emits_mono [OF emits_deferred_split])
    (auto intro!: em ko_deferred_finish split_event_keeps_ortho)

lemma exposes_lookup: "exposes hp r [nm] \<longleftrightarrow> (\<exists>v. lookup hp (Some r) nm = Inr v)"
  by (auto simp: exposes_def lookup_def split: option.splits)

lemma views_by_lookup:
  assumes "\<And>ro nm. nm \<in> set [''spaces'', ''active'', ''region_3d'', ''view_perspective''] \<Longrightarrow>
     lookup hp' ro nm = lookup hp ro nm"
  shows "has_view a hp' = has_view a hp \<and> is_ortho a hp' = is_ortho a hp"
proof -
  have l: "\<And>ro. lookup hp' ro ''spaces'' = lookup hp ro ''spaces''"
    "\<And>ro. lookup hp' ro ''active'' = lookup hp ro ''active''"
    "\<And>ro. lookup hp' ro ''region_3d'' = lookup hp ro ''region_3d''"
    "\<And>ro. lookup hp' ro ''view_perspective'' = lookup hp ro ''view_perspective''"
    using assms by simp_all
  have "fst (region_3d a (hp', [])) = fst (region_3d a (hp, []))"
    unfolding region_3d_def active_space_def get_ref_def getattr_def as_ref_def
    by (auto simp: bind_app l ret_def throw_def split: sum.splits val.splits)
  then show ?thesis unfolding has_view_def is_ortho_def exposes_lookup l by simp
qed

lemma sim_run_lookup:
  assumes "nm \<noteq> ''window''" and "nm \<noteq> ''areas''"
  shows "lookup (snd (sim_run c hp)) ro nm = lookup hp ro nm"
proof (cases c)
  case (Op op ctx kw)
  have 1: "\<And>ob. hp 0 = Some ob \<Longrightarrow>
      lookup (hp(0 \<mapsto> ob(''window'' \<mapsto> VRef (Some 2)))) ro nm = lookup hp ro nm"
    using assms(1) by (intro lookup_upd) simp_all
  have 2: "lookup (sim_split hp ctx) ro nm = lookup hp ro nm"
    unfolding sim_split_def using assms(2)
    by (auto split: sum.splits val.splits option.splits intro!: lookup_upd)
  show ?thesis using Op 1 2 by (auto simp: sim_run_def split: option.splits)
qed (simp_all add: sim_run_def)

lemma sim_keeps_views: "host_keeps sim_host (has_view a)" "host_keeps sim_host (is_ortho a)"
proof -
  have "\<And>c hp. has_view a (snd (sim_run c hp)) = has_view a hp \<and>
      is_ortho a (snd (sim_run c hp)) = is_ortho a hp"
    by (rule views_by_lookup) (auto intro: sim_run_lookup)
  then show "host_keeps sim_host (has_view a)" "host_keeps sim_host (is_ortho a)"
    unfolding host_keeps_def sim_host_def by simp_all
qed

lemma sim_has_view:
  "has_view 10 sim_heap" "has_view 30 sim_heap" "has_view 40 sim_heap" "has_view 50 sim_heap"
  by code_simp+

lemma sim_finish_success:
  "fst (deferred_finish sim_host (Some 2) 50 51 40 41 (sim_heap, [])) = Inr ()"
  by code_simp

lemma sim_configure_success:
  "fst (split_configure sim_host (Some 1) 30 10 (sim_heap, [])) =
     Inr (FINISHED, Some (Some 1, 30, 31, 10, 11))"
  by code_simp


lemma configure_first_event:
  assumes "exposes (fst w) a [''type'']"
  shows "\<exists>rest. snd (snd (configure_silhouette_area h win a r axis w)) =
     snd w @ Write a ''type'' (VStr ''VIEW_3D'') # rest"
proof -
  obtain hp lg where w: "w = (hp, lg)" by (cases w)
  define K where "K = seq (try_pass (setattr (Some a) ''ui_type'' (VStr ''VIEW_3D'')))
          (bind (active_space a)
             (\<lambda>space. seqs
                [silhouette_styling space,
                 hide_ui_first space,
                 apply_view_axis h win a r axis,
                 frame_selected h win a r,
                 apply_view_axis h win a r axis,
                 try_pass (seq (hide_ui space) (try_pass (call h (TagRedraw a))))]))"
  have shape: "configure_silhouette_area h win a r axis =
      seq (try_pass (setattr (Some a) ''type'' (VStr ''VIEW_3D''))) K"
    unfolding configure_silhouette_area_def K_def by simp
  obtain hp' where 1: "setattr (Some a) ''type'' (VStr ''VIEW_3D'') (hp, lg) =
      (Inr (), (hp', lg @ [Write a ''type'' (VStr ''VIEW_3D'')]))"
    using setattr_step [of hp a "''type''" "VStr ''VIEW_3D''" lg] assms w
    by (auto simp: nav_attrs_def)
  have 2: "configure_silhouette_area h win a r axis w =
      K (hp', lg @ [Write a ''type'' (VStr ''VIEW_3D'')])"
    unfolding shape w using 1 by (simp add: seq_app try_pass_app)
  have "emits (\<lambda>e. True) K"
    unfolding K_def silhouette_styling_def hide_ui_first_def hide_overlays_def frame_selected_def
    by (intro em emits_apply_view_axis emits_hide_ui) simp_all
  then obtain rest where
    "snd (snd (K (hp', lg @ [Write a ''type'' (VStr ''VIEW_3D'')]))) =
       (lg @ [Write a ''type'' (VStr ''VIEW_3D'')]) @ rest"
    using emits_true [of K "(hp', lg @ [Write a ''type'' (VStr ''VIEW_3D'')])"] by auto
  then show ?thesis using 2 w by (intro exI [of _ rest]) simp
qed

lemma configure_pair_types:
  assumes ok: "fst (configure_pair h win tp rt bt rb w) = Inr ()"
  shows "\<exists>evs. snd (snd (configure_pair h win tp rt bt rb w)) = snd w @ evs \<and>
     (exposes (fst w) tp [''type''] \<longrightarrow> Write tp ''type'' (VStr ''VIEW_3D'') \<in> set evs) \<and>
     (exposes (fst (snd (configure_silhouette_area h win tp rt ''FRONT'' w))) bt [''type''] \<longrightarrow>
        Write bt ''type'' (VStr ''VIEW_3D'') \<in> set evs)"
proof -
  let ?c1 = "configure_silhouette_area h win tp rt ''FRONT''"
  let ?c2 = "configure_silhouette_area h win bt rb ''RIGHT''"
  define k where "k = seq (apply_view_axis h win tp rt ''FRONT'')
    (seq (apply_view_axis h win bt rb ''RIGHT'') (ret ()))"
  let ?w1 = "snd (?c1 w)"
  let ?w2 = "snd (?c2 ?w1)"
  have def: "configure_pair h win tp rt bt rb = seq ?c1 (seq ?c2 k)"
    by (simp add: configure_pair_def k_def)
  have 1: "configure_pair h win tp rt bt rb w = seq ?c2 k ?w1"
    using seq_success [of ?c1 "seq ?c2 k" w "()"] ok unfolding def by simp
  have 2: "configure_pair h win tp rt bt rb w = k ?w2"
    using seq_success [of ?c2 k ?w1 "()"] ok 1 by simp
  have ec: "\<And>a r axis. emits (\<lambda>e. True) (configure_silhouette_area h win a r axis)"
    by (rule emits_configure) simp_all
  obtain e1 where e1: "snd ?w1 = snd w @ e1" using emits_true [OF ec] by blast
  obtain e2 where e2: "snd ?w2 = snd ?w1 @ e2" using emits_true [OF ec] by blast
  have "emits (\<lambda>e. True) k" unfolding k_def by (intro em emits_apply_view_axis) simp_all
  then obtain e3 where e3: "snd (snd (k ?w2)) = snd ?w2 @ e3" using emits_true by blast
  have t1: "Write tp ''type'' (VStr ''VIEW_3D'') \<in> set e1" if "exposes (fst w) tp [''type'']"
    using configure_first_event [OF that, of h win rt "''FRONT''"] e1 by auto
  have t2: "Write bt ''type'' (VStr ''VIEW_3D'') \<in> set e2" if "exposes (fst ?w1) bt [''type'']"
    using configure_first_event [OF that, of h win rb "''RIGHT''"] e2 by auto
  show ?thesis
    by (rule exI [of _ "e1 @ e2 @ e3"]) (use 2 e1 e2 e3 t1 t2 in simp)
qed

lemma deferred_finish_types:
  assumes ok: "fst (deferred_finish h win tp rt bt rb w) = Inr ()"
  shows "\<exists>evs. snd (snd (deferred_finish h win tp rt bt rb w)) = snd w @ evs \<and>
     (exposes (fst w) tp [''type''] \<longrightarrow> Write tp ''type'' (VStr ''VIEW_3D'') \<in> set evs) \<and>
     (exposes (fst (snd (configure_silhouette_area h win tp rt ''FRONT'' w))) bt [''type''] \<longrightarrow>
        Write bt ''type'' (VStr ''VIEW_3D'') \<in> set evs)"
proof -
  define k where "k = seqs [try_pass (bind (active_space tp) hide_ui),
        try_pass (bind (active_space bt) hide_ui), distance_backoff tp bt]"
  have def: "deferred_finish h win tp rt bt rb = seq (configure_pair h win tp rt bt rb) k"
    by (simp add: deferred_finish_def k_def)
  let ?w1 = "snd (configure_pair h win tp rt bt rb w)"
  have okp: "fst (configure_pair h win tp rt bt rb w) = Inr ()"
    and eq: "deferred_finish h win tp rt bt rb w = k ?w1"
    using seq_success [of "configure_pair h win tp rt bt rb" k w "()"] ok unfolding def by auto
  obtain e1 where e1: "snd ?w1 = snd w @ e1"
    "exposes (fst w) tp [''type''] \<longrightarrow> Write tp ''type'' (VStr ''VIEW_3D'') \<in> set e1"
    "exposes (fst (snd (configure_silhouette_area h win tp rt ''FRONT'' w))) bt [''type''] \<longrightarrow>
        Write bt ''type'' (VStr ''VIEW_3D'') \<in> set e1"
    using configure_pair_types [OF okp] by blast
  have "emits (\<lambda>e. True) k" unfolding k_def
    by (intro em emits_hide_ui emits_distance_backoff) simp_all
  then obtain e2 where e2: "snd (snd (k ?w1)) = snd ?w1 @ e2" using emits_true by blast
  show ?thesis
    by (rule exI [of _ "e1 @ e2"]) (use eq e1 e2 in simp)
qed

lemma split_configure_types:
  assumes ok: "fst (split_configure h win tp bt w) = Inr (FINISHED, Some (win, tp, rt, bt, rb))"
  shows "\<exists>evs. snd (snd (split_configure h win tp bt w)) = snd w @ evs \<and>
     (exposes (fst w) tp [''type''] \<longrightarrow> Write tp ''type'' (VStr ''VIEW_3D'') \<in> set evs) \<and>
     (exposes (fst (snd (configure_silhouette_area h win tp rt ''FRONT'' w))) bt [''type''] \<longrightarrow>
        Write bt ''type'' (VStr ''VIEW_3D'') \<in> set evs)"
proof -
  obtain rt' rb' where c: "Some (win, tp, rt, bt, rb) = Some (win, tp, rt', bt, rb')"
    and eq: "split_configure h win tp bt w =
       seq (configure_pair h win tp rt' bt rb')
         (seq (try_pass (call h (TimerRegister ''_post_fix'' 0.05)))
            (ret (FINISHED, Some (win, tp, rt', bt, rb')))) w"
    using split_configure_success [OF ok] by blast
  define k where "k = seq (try_pass (call h (TimerRegister ''_post_fix'' 0.05)))
            (ret (FINISHED, Some (win, tp, rt, bt, rb)))"
  from c have eq': "split_configure h win tp bt w = seq (configure_pair h win tp rt bt rb) k w"
    using eq unfolding k_def by simp
  let ?w1 = "snd (configure_pair h win tp rt bt rb w)"
  have okp: "fst (configure_pair h win tp rt bt rb w) = Inr ()"
    and eq2: "split_configure h win tp bt w = k ?w1"
    using seq_success [of "configure_pair h win tp rt bt rb" k w
        "(FINISHED, Some (win, tp, rt, bt, rb))"] ok unfolding eq' by auto
  obtain e1 where e1: "snd ?w1 = snd w @ e1"
    "exposes (fst w) tp [''type''] \<longrightarrow> Write tp ''type'' (VStr ''VIEW_3D'') \<in> set e1"
    "exposes (fst (snd (configure_silhouette_area h win tp rt ''FRONT'' w))) bt [''type''] \<longrightarrow>
        Write bt ''type'' (VStr ''VIEW_3D'') \<in> set e1"
    using configure_pair_types [OF okp] by blast
  have "emits (\<lambda>e. True) k" unfolding k_def by (intro em) simp_all
  then obtain e2 where e2: "snd (snd (k ?w1)) = snd ?w1 @ e2" using emits_true by blast
  show ?thesis
    by (rule exI [of _ "e1 @ e2"]) (use eq2 e1 e2 in simp)
qed




section \<open>The effects of the add-on\<close>

lemma he_apply: "emits is_host_effect (apply_view_axis h win a r axis)"
  unfolding apply_view_axis_def axis_in_override_def axis_legacy_def force_ortho_def
    lock_rotation_def
  by (intro em) (simp_all add: written_attrs_def)

lemma he_configure: "emits is_host_effect (configure_silhouette_area h win a r axis)"
  unfolding configure_silhouette_area_def silhouette_styling_def hide_ui_first_def hide_overlays_def
    frame_selected_def hide_ui_def
  by (intro em he_apply) (simp_all add: written_attrs_def)

lemma he_configure_pair: "emits is_host_effect (configure_pair h win a r b rb)"
  unfolding configure_pair_def by (intro em he_apply he_configure)

lemma he_split_configure: "emits is_host_effect (split_configure h win a b)"
  unfolding split_configure_def cancel_def by (intro em he_configure_pair) auto

lemma split_event_host_effect: "is_split_event e \<or> is_report e \<Longrightarrow> is_host_effect e"
  by (cases e rule: is_split_event.cases) auto

lemma he_split_after_vertical:
  "emits is_host_effect (split_after_vertical h win scr area before)"
  unfolding split_after_vertical_def Let_def cancel_def
  by (intro em emits_mono [OF emits_split_left_kind] he_split_configure)
    (auto intro!: em he_split_configure split_event_host_effect)

lemma he_split_execute: "emits is_host_effect (split_execute h ctx)"
  unfolding split_execute_def cancel_def
  by (intro em emits_mono [OF emits_split_vertical_kind] he_split_after_vertical)
    (auto intro!: split_event_host_effect)

lemma he_deferred_finish: "emits is_host_effect (deferred_finish h win a r b rb)"
  unfolding deferred_finish_def hide_ui_def hide_overlays_def distance_backoff_def Let_def
    as_float_def
  by (intro em he_configure_pair) (auto intro!: em split: val.splits simp: written_attrs_def)

lemma he_deferred_setup: "emits is_host_effect (deferred_setup h nw)"
  unfolding deferred_setup_def deferred_setup_body_def Let_def
  by (intro em he_deferred_finish emits_mono [OF emits_deferred_split])
    (auto intro!: em he_deferred_finish split_event_host_effect)

lemma he_post_fix: "emits is_host_effect (post_fix h cap)"
  unfolding post_fix_def fix_identical_def view_rotation_of_def hide_ui_def hide_overlays_def
  by (cases cap) (auto intro!: em he_apply simp: written_attrs_def)

lemma he_dual_execute: "emits is_host_effect (dual_execute h ctx)"
  unfolding dual_execute_def window_new_def after_window_def size_new_window_def
    hide_statusbar_def Let_def
  by (intro em) (auto intro!: em simp: written_attrs_def)

lemma preserves_split_configure:
  "host_keeps h I \<Longrightarrow> write_keeps I \<Longrightarrow> preserves I (split_configure h win a b)"
  unfolding split_configure_def cancel_def
  by (intro pr preserves_configure_pair) (auto intro!: pr preserves_configure_pair)

lemma preserves_split_after_vertical:
  "host_keeps h I \<Longrightarrow> write_keeps I \<Longrightarrow>
   preserves I (split_after_vertical h win scr area before)"
  unfolding split_after_vertical_def Let_def cancel_def
  by (intro pr preserves_split_left preserves_split_configure)
    (auto intro!: pr preserves_split_configure)

lemma preserves_split_execute:
  "host_keeps h I \<Longrightarrow> write_keeps I \<Longrightarrow> preserves I (split_execute h ctx)"
  unfolding split_execute_def cancel_def
  by (intro pr preserves_split_vertical preserves_split_after_vertical)
    (auto intro!: pr preserves_split_after_vertical)

lemma preserves_deferred_setup:
  "host_keeps h I \<Longrightarrow> write_keeps I \<Longrightarrow> preserves I (deferred_setup h nw)"
  unfolding deferred_setup_def deferred_setup_body_def Let_def
  by (intro pr preserves_deferred_finish preserves_deferred_split)
    (auto intro!: pr preserves_deferred_finish)

lemma preserves_post_fix:
  "host_keeps h I \<Longrightarrow> write_keeps I \<Longrightarrow> preserves I (post_fix h cap)"
  unfolding post_fix_def fix_identical_def view_rotation_of_def
  by (cases cap)
    (auto intro!: pr preserves_apply_view_axis preserves_hide_ui simp: addon_write_def)

lemma preserves_dual_execute:
  "host_keeps h I \<Longrightarrow> write_keeps I \<Longrightarrow> preserves I (dual_execute h ctx)"
  unfolding dual_execute_def after_window_def size_new_window_def hide_statusbar_def Let_def
  by (intro pr) (auto intro!: pr simp: addon_write_def)


text \<open>
  Claim C7. Whatever the host and the store, every effect of \<open>execute\<close> of either operator
  and of either timer callback is an assignment of one of the attributes of
  \<open>written_attrs\<close> to a host object, a call of one of the host operations of \<open>is_host_call\<close>,
  or a report; \<open>poll\<close> has no effect. The store changes in no other way: a property of the
  store that the host's answers keep and that such assignments keep holds after the run if
  it held before.
\<close>

theorem host_state_only:
  "(\<exists>evs. snd (snd (dual_execute h ctx w)) = snd w @ evs \<and> list_all is_host_effect evs) \<and>
   (\<exists>evs. snd (snd (deferred_setup h nw w)) = snd w @ evs \<and> list_all is_host_effect evs) \<and>
   (\<exists>evs. snd (snd (split_execute h ctx w)) = snd w @ evs \<and> list_all is_host_effect evs) \<and>
   (\<exists>evs. snd (snd (post_fix h cap w)) = snd w @ evs \<and> list_all is_host_effect evs) \<and>
   snd (dual_poll ctx w) = w \<and> snd (split_poll ctx w) = w \<and>
   (host_keeps h I \<and> write_keeps I \<and> I (fst w) \<longrightarrow>
      I (fst (snd (dual_execute h ctx w))) \<and> I (fst (snd (deferred_setup h nw w))) \<and>
      I (fst (snd (split_execute h ctx w))) \<and> I (fst (snd (post_fix h cap w))))"
proof (intro conjI impI)
  show "\<exists>evs. snd (snd (dual_execute h ctx w)) = snd w @ evs \<and> list_all is_host_effect evs"
    using emitsD [OF he_dual_execute] by blast
  show "\<exists>evs. snd (snd (deferred_setup h nw w)) = snd w @ evs \<and> list_all is_host_effect evs"
    using emitsD [OF he_deferred_setup] by blast
  show "\<exists>evs. snd (snd (split_execute h ctx w)) = snd w @ evs \<and> list_all is_host_effect evs"
    using emitsD [OF he_split_execute] by blast
  show "\<exists>evs. snd (snd (post_fix h cap w)) = snd w @ evs \<and> list_all is_host_effect evs"
    using emitsD [OF he_post_fix] by blast
  show "snd (dual_poll ctx w) = w" "snd (split_poll ctx w) = w"
    using polls_readonly by blast+
next
  assume a: "host_keeps h I \<and> write_keeps I \<and> I (fst w)"
  then have k: "host_keeps h I" and wk: "write_keeps I" and i: "I (fst w)" by simp_all
  show "I (fst (snd (dual_execute h ctx w)))"
    using preservesD [OF preserves_dual_execute [OF k wk] i] .
  show "I (fst (snd (deferred_setup h nw w)))"
    using preservesD [OF preserves_deferred_setup [OF k wk] i] .
  show "I (fst (snd (split_execute h ctx w)))"
    using preservesD [OF preserves_split_execute [OF k wk] i] .
  show "I (fst (snd (post_fix h cap w)))"
    using preservesD [OF preserves_post_fix [OF k wk] i] .
qed

theorem host_state_only_witness:
  "host_keeps sim_host (live (Some 1)) \<and> write_keeps (live (Some 1)) \<and> live (Some 1) sim_heap \<and>
   live (Some 1) (fst (snd (dual_execute sim_host 0 (sim_heap, [])))) \<and>
   live (Some 1) (fst (snd (deferred_setup sim_host (Some 2) (sim_heap, [])))) \<and>
   live (Some 1) (fst (snd (split_execute sim_host 0 (sim_heap, [])))) \<and>
   live (Some 1) (fst (snd (post_fix sim_host (Some 1, 30, 31, 10, 11) (sim_heap, []))))"
  using host_state_only [of sim_host 0 "(sim_heap, [])" "Some 2" "(Some 1, 30, 31, 10, 11)"
      "live (Some 1)"]
    sim_keeps_live [of "Some 1"] write_keeps_live [of "Some 1"] sim_live(1)
  by simp

section \<open>Rescheduling of the timer callbacks\<close>

lemma deferred_no_regions:
  assumes f: "fst (find_window_view3d_area nw w) = Inr (Some a, Some r)"
    and b: "fst (window_areas nw w) = Inr before"
    and s: "fst (deferred_split h nw a r w) = Inr True"
    and af: "fst (window_areas nw (snd (deferred_split h nw a r w))) = Inr after"
    and n: "not_in after before = new_area # rest"
    and ya: "fst (get_int (Some a) ''y'' (snd (deferred_split h nw a r w))) = Inr ya"
    and yn: "fst (get_int (Some new_area) ''y'' (snd (deferred_split h nw a r w))) = Inr yn"
    and rt: "fst (window_region (Some (if yn \<le> ya then a else new_area))
               (snd (deferred_split h nw a r w))) = Inr rt"
    and rb: "fst (window_region (Some (if yn \<le> ya then new_area else a))
               (snd (deferred_split h nw a r w))) = Inr rb"
    and none: "rt = None \<or> rb = None"
  shows "fst (deferred_setup h nw w) = Inr (Some 0.05)"
proof -
  obtain w1 where s1: "deferred_split h nw a r w = (Inr True, w1)"
    using s by (cases "deferred_split h nw a r w") auto
  have a1: "window_areas nw w1 = (Inr after, w1)"
    using readonlyD [OF readonly_window_areas, of nw w1] af s1 by simp
  have y1: "get_int (Some a) ''y'' w1 = (Inr ya, w1)"
    using readonlyD [OF readonly_get_int, of "Some a" "''y''" w1] ya s1 by simp
  have y2: "get_int (Some new_area) ''y'' w1 = (Inr yn, w1)"
    using readonlyD [OF readonly_get_int, of "Some new_area" "''y''" w1] yn s1 by simp
  have r1: "window_region (Some (if yn \<le> ya then a else new_area)) w1 = (Inr rt, w1)"
    using readonlyD [OF readonly_window_region, of "Some (if yn \<le> ya then a else new_area)" w1]
      rt s1 by simp
  have r2: "window_region (Some (if yn \<le> ya then new_area else a)) w1 = (Inr rb, w1)"
    using readonlyD [OF readonly_window_region, of "Some (if yn \<le> ya then new_area else a)" w1]
      rb s1 by simp
  have "deferred_setup_body h nw w = (Inr (Some 0.05), w1)"
    using deferred_after_find [OF f, of h] b n none
    by (cases rt; cases rb) (auto simp: bind_app s1 a1 y1 y2 r1 r2 Let_def)
  then show ?thesis by (simp add: deferred_setup_def try_except_app)
qed

lemma deferred_retry_cases:
  assumes "fst (deferred_setup h nw w) = Inr (Some 0.05)"
  shows "(\<exists>a r. fst (find_window_view3d_area nw w) = Inr (a, r) \<and> (a = None \<or> r = None)) \<or>
    (\<exists>a r. fst (find_window_view3d_area nw w) = Inr (Some a, Some r) \<and>
       (fst (deferred_split h nw a r w) = Inr False \<or>
        (\<exists>before after.
           fst (window_areas nw w) = Inr before \<and>
           fst (deferred_split h nw a r w) = Inr True \<and>
           fst (window_areas nw (snd (deferred_split h nw a r w))) = Inr after \<and>
           (not_in after before = [] \<or>
            (\<exists>new_area rest ya yn rt rb.
               not_in after before = new_area # rest \<and>
               fst (get_int (Some a) ''y'' (snd (deferred_split h nw a r w))) = Inr ya \<and>
               fst (get_int (Some new_area) ''y'' (snd (deferred_split h nw a r w))) = Inr yn \<and>
               fst (window_region (Some (if yn \<le> ya then a else new_area))
                  (snd (deferred_split h nw a r w))) = Inr rt \<and>
               fst (window_region (Some (if yn \<le> ya then new_area else a))
                  (snd (deferred_split h nw a r w))) = Inr rb \<and>
               (rt = None \<or> rb = None))))))"
proof -
  have body: "fst (deferred_setup_body h nw w) = Inr (Some 0.05)"
    using assms unfolding deferred_setup_def
    by (cases "deferred_setup_body h nw w"; cases "fst (deferred_setup_body h nw w)")
      (auto simp: try_except_app)
  obtain fa fr where f: "find_window_view3d_area nw w = (Inr (fa, fr), w)"
    using readonlyD [OF readonly_find, of nw w] body
    by (cases "fst (find_window_view3d_area nw w)")
      (auto simp: deferred_setup_body_def bind_app split: prod.splits)
  show ?thesis
  proof (cases "fa = None \<or> fr = None")
    case True
    then show ?thesis using f by auto
  next
    case False
    then obtain a r where ar: "fa = Some a" "fr = Some r" by auto
    then have fs: "fst (find_window_view3d_area nw w) = Inr (Some a, Some r)" using f by simp
    let ?K4 = "\<lambda>tp bt. bind (window_region (Some tp))
                (\<lambda>rt. bind (window_region (Some bt))
                   (\<lambda>rb. case (rt, rb) of
                      (Some reg_top, Some reg_bottom) \<Rightarrow>
                        seq (deferred_finish h nw tp reg_top bt reg_bottom) (ret None)
                    | _ \<Rightarrow> ret (Some 0.05)))"
    let ?K3 = "\<lambda>new_area. bind (get_int (Some a) ''y'')
                       (\<lambda>ya. bind (get_int (Some new_area) ''y'')
                          (\<lambda>yn. ?K4 (if yn \<le> ya then a else new_area)
                                     (if yn \<le> ya then new_area else a)))"
    let ?K2 = "\<lambda>before after. case not_in after before of
                   [] \<Rightarrow> ret (Some 0.05)
                 | new_area # _ \<Rightarrow> ?K3 new_area"
    let ?K1 = "\<lambda>before ok. if \<not> ok then ret (Some 0.05)
            else bind (window_areas nw) (?K2 before)"
    let ?ws = "snd (deferred_split h nw a r w)"
    let ?R = "Some (0.05 :: real)"
    let ?C4 = "\<lambda>before after. \<exists>new_area rest ya yn rt rb.
               not_in after before = new_area # rest \<and>
               fst (get_int (Some a) ''y'' ?ws) = Inr ya \<and>
               fst (get_int (Some new_area) ''y'' ?ws) = Inr yn \<and>
               fst (window_region (Some (if yn \<le> ya then a else new_area)) ?ws) = Inr rt \<and>
               fst (window_region (Some (if yn \<le> ya then new_area else a)) ?ws) = Inr rb \<and>
               (rt = None \<or> rb = None)"
    let ?C2 = "\<exists>before after.
           fst (window_areas nw w) = Inr before \<and>
           fst (deferred_split h nw a r w) = Inr True \<and>
           fst (window_areas nw ?ws) = Inr after \<and>
           (not_in after before = [] \<or> ?C4 before after)"
    have fin: "fst (deferred_split h nw a r w) = Inr False \<or> ?C2 \<Longrightarrow> ?thesis"
      by (rule disjI2, rule exI [of _ a], rule exI [of _ r]) (intro conjI fs)
    obtain before where b: "fst (window_areas nw w) = Inr before"
      and eq: "deferred_setup_body h nw w = bind (deferred_split h nw a r) (?K1 before) w"
      using deferred_after_find [OF fs, of h] unfolding Let_def by blast
    obtain ok where ok: "fst (deferred_split h nw a r w) = Inr ok"
      and e1: "deferred_setup_body h nw w = ?K1 before ok ?ws"
      using bind_success [of "deferred_split h nw a r" "?K1 before" w ?R] body eq by auto
    show ?thesis
    proof (cases ok)
      case False
      then have "fst (deferred_split h nw a r w) = Inr False" using ok by simp
      then show ?thesis by (intro fin disjI1)
    next
      case True
      then have okT: "fst (deferred_split h nw a r w) = Inr True" using ok by simp
      from True have e1': "deferred_setup_body h nw w = bind (window_areas nw) (?K2 before) ?ws"
        using e1 by simp
      obtain after where af: "window_areas nw ?ws = (Inr after, ?ws)"
        and e2: "deferred_setup_body h nw w = ?K2 before after ?ws"
        using bind_ro_success [OF readonly_window_areas, of nw "?K2 before" ?ws ?R] body e1'
        by auto
      show ?thesis
      proof (cases "not_in after before")
        case Nil
        have afN: "fst (window_areas nw ?ws) = Inr after" using af by simp
        have "?C2"
          by (rule exI [of _ before], rule exI [of _ after]) (intro conjI b okT afN disjI1 Nil)
        then show ?thesis by (intro fin disjI2)
      next
        case (Cons new_area rest)
        then have e3: "deferred_setup_body h nw w = ?K3 new_area ?ws" using e2 by simp
        obtain ya where ya: "get_int (Some a) ''y'' ?ws = (Inr ya, ?ws)"
          and e4: "deferred_setup_body h nw w = bind (get_int (Some new_area) ''y'')
                          (\<lambda>yn. ?K4 (if yn \<le> ya then a else new_area)
                                     (if yn \<le> ya then new_area else a)) ?ws"
          using bind_ro_success [OF readonly_get_int, of "Some a" "''y''" _ ?ws ?R] body e3 by auto
        obtain yn where yn: "get_int (Some new_area) ''y'' ?ws = (Inr yn, ?ws)"
          and e5: "deferred_setup_body h nw w = ?K4 (if yn \<le> ya then a else new_area)
                                     (if yn \<le> ya then new_area else a) ?ws"
          using bind_ro_success [OF readonly_get_int, of "Some new_area" "''y''" _ ?ws ?R] body e4
          by auto
        define tp where "tp = (if yn \<le> ya then a else new_area)"
        define bt where "bt = (if yn \<le> ya then new_area else a)"
        have e5': "deferred_setup_body h nw w = ?K4 tp bt ?ws" unfolding tp_def bt_def by (rule e5)
        obtain rt where rt: "window_region (Some tp) ?ws = (Inr rt, ?ws)"
          and e6: "deferred_setup_body h nw w = bind (window_region (Some bt))
                   (\<lambda>rb. case (rt, rb) of
                      (Some reg_top, Some reg_bottom) \<Rightarrow>
                        seq (deferred_finish h nw tp reg_top bt reg_bottom) (ret None)
                    | _ \<Rightarrow> ret (Some 0.05)) ?ws"
          using bind_ro_success [OF readonly_window_region, of "Some tp" _ ?ws ?R] body e5' by auto
        obtain rb where rb: "window_region (Some bt) ?ws = (Inr rb, ?ws)"
          and e7: "deferred_setup_body h nw w = (case (rt, rb) of
                      (Some reg_top, Some reg_bottom) \<Rightarrow>
                        seq (deferred_finish h nw tp reg_top bt reg_bottom) (ret None)
                    | _ \<Rightarrow> ret (Some 0.05)) ?ws"
          using bind_ro_success [OF readonly_window_region, of "Some bt" _ ?ws ?R] body e6 by auto
        have none: "rt = None \<or> rb = None"
        proof (rule ccontr)
          assume "\<not> (rt = None \<or> rb = None)"
          then obtain reg_top reg_bottom where "rt = Some reg_top" "rb = Some reg_bottom" by auto
          then have "deferred_setup_body h nw w =
              seq (deferred_finish h nw tp reg_top bt reg_bottom) (ret None) ?ws"
            using e7 by simp
          then have "fst (deferred_setup_body h nw w) \<noteq> Inr (Some 0.05)"
            by (cases "deferred_finish h nw tp reg_top bt reg_bottom ?ws";
                cases "fst (deferred_finish h nw tp reg_top bt reg_bottom ?ws)")
              (auto simp: seq_app)
          then show False using body by simp
        qed
        have af': "fst (window_areas nw ?ws) = Inr after" using af by simp
        have "?C4 before after"
          by (rule exI [of _ new_area], rule exI [of _ rest], rule exI [of _ ya],
              rule exI [of _ yn], rule exI [of _ rt], rule exI [of _ rb])
            (use Cons ya yn rt rb none in \<open>simp add: tp_def bt_def\<close>)
        then have c3: "not_in after before = [] \<or> ?C4 before after" by (rule disjI2)
        have "?C2"
          by (rule exI [of _ before], rule exI [of _ after]) (intro conjI b okT af' c3)
        then show ?thesis by (intro fin disjI2)
      qed
    qed
  qed
qed

text \<open>
  Claim C4. Retrying happens only where a window is being created. The callback
  \<open>_deferred_setup\<close> returns either \<open>None\<close> or \<open>0.05\<close>. It returns \<open>0.05\<close> when the new
  window's VIEW_3D area or that area's WINDOW region is not found, when both attempts at
  the horizontal split raise, when the split has left no new area on the screen, and when
  the upper or the lower of the two areas has no WINDOW region; and in no other case. A
  run that has done anything beyond splitting (any assignment, any view operator)
  returns \<open>None\<close>. The other timer callback, \<open>_post_fix\<close>, returns \<open>None\<close> always.
\<close>

theorem timer_callbacks_reschedule:
  "(fst (deferred_setup h nw w) = Inr None \<or> fst (deferred_setup h nw w) = Inr (Some 0.05)) \<and>
   (\<forall>a r. fst (find_window_view3d_area nw w) = Inr (a, r) \<and> (a = None \<or> r = None) \<longrightarrow>
      fst (deferred_setup h nw w) = Inr (Some 0.05)) \<and>
   (\<forall>a r. fst (find_window_view3d_area nw w) = Inr (Some a, Some r) \<and>
      fst (deferred_split h nw a r w) = Inr False \<longrightarrow>
      fst (deferred_setup h nw w) = Inr (Some 0.05)) \<and>
   (\<forall>a r before after.
      fst (find_window_view3d_area nw w) = Inr (Some a, Some r) \<and>
      fst (window_areas nw w) = Inr before \<and>
      fst (deferred_split h nw a r w) = Inr True \<and>
      fst (window_areas nw (snd (deferred_split h nw a r w))) = Inr after \<and>
      not_in after before = [] \<longrightarrow>
      fst (deferred_setup h nw w) = Inr (Some 0.05)) \<and>
   (\<forall>a r before after new_area rest ya yn rt rb.
      fst (find_window_view3d_area nw w) = Inr (Some a, Some r) \<and>
      fst (window_areas nw w) = Inr before \<and>
      fst (deferred_split h nw a r w) = Inr True \<and>
      fst (window_areas nw (snd (deferred_split h nw a r w))) = Inr after \<and>
      not_in after before = new_area # rest \<and>
      fst (get_int (Some a) ''y'' (snd (deferred_split h nw a r w))) = Inr ya \<and>
      fst (get_int (Some new_area) ''y'' (snd (deferred_split h nw a r w))) = Inr yn \<and>
      fst (window_region (Some (if yn \<le> ya then a else new_area))
         (snd (deferred_split h nw a r w))) = Inr rt \<and>
      fst (window_region (Some (if yn \<le> ya then new_area else a))
         (snd (deferred_split h nw a r w))) = Inr rb \<and>
      (rt = None \<or> rb = None) \<longrightarrow>
      fst (deferred_setup h nw w) = Inr (Some 0.05)) \<and>
   (fst (deferred_setup h nw w) = Inr (Some 0.05) \<longrightarrow>
      ((\<exists>a r. fst (find_window_view3d_area nw w) = Inr (a, r) \<and> (a = None \<or> r = None)) \<or>
       (\<exists>a r. fst (find_window_view3d_area nw w) = Inr (Some a, Some r) \<and>
          (fst (deferred_split h nw a r w) = Inr False \<or>
           (\<exists>before after.
              fst (window_areas nw w) = Inr before \<and>
              fst (deferred_split h nw a r w) = Inr True \<and>
              fst (window_areas nw (snd (deferred_split h nw a r w))) = Inr after \<and>
              (not_in after before = [] \<or>
               (\<exists>new_area rest ya yn rt rb.
                  not_in after before = new_area # rest \<and>
                  fst (get_int (Some a) ''y'' (snd (deferred_split h nw a r w))) = Inr ya \<and>
                  fst (get_int (Some new_area) ''y'' (snd (deferred_split h nw a r w))) = Inr yn \<and>
                  fst (window_region (Some (if yn \<le> ya then a else new_area))
                     (snd (deferred_split h nw a r w))) = Inr rt \<and>
                  fst (window_region (Some (if yn \<le> ya then new_area else a))
                     (snd (deferred_split h nw a r w))) = Inr rb \<and>
                  (rt = None \<or> rb = None)))))))) \<and>
   (\<forall>evs. snd (snd (deferred_setup h nw w)) = snd w @ evs \<and> \<not> list_all is_split_event evs \<longrightarrow>
      fst (deferred_setup h nw w) = Inr None) \<and>
   fst (post_fix h cap w) = Inr None"
proof (intro conjI allI impI)
  show "fst (deferred_setup h nw w) = Inr None \<or> fst (deferred_setup h nw w) = Inr (Some 0.05)"
    by (rule deferred_result)
next
  fix a r
  assume "fst (find_window_view3d_area nw w) = Inr (a, r) \<and> (a = None \<or> r = None)"
  then show "fst (deferred_setup h nw w) = Inr (Some 0.05)"
    using deferred_no_area [of nw w a r h] by simp
next
  fix a r
  assume "fst (find_window_view3d_area nw w) = Inr (Some a, Some r) \<and>
      fst (deferred_split h nw a r w) = Inr False"
  then show "fst (deferred_setup h nw w) = Inr (Some 0.05)"
    using deferred_split_failed by blast
next
  fix a r before after
  assume "fst (find_window_view3d_area nw w) = Inr (Some a, Some r) \<and>
      fst (window_areas nw w) = Inr before \<and>
      fst (deferred_split h nw a r w) = Inr True \<and>
      fst (window_areas nw (snd (deferred_split h nw a r w))) = Inr after \<and>
      not_in after before = []"
  then show "fst (deferred_setup h nw w) = Inr (Some 0.05)"
    using deferred_no_new_area by blast
next
  fix a r before after new_area rest ya yn rt rb
  assume a: "fst (find_window_view3d_area nw w) = Inr (Some a, Some r) \<and>
      fst (window_areas nw w) = Inr before \<and>
      fst (deferred_split h nw a r w) = Inr True \<and>
      fst (window_areas nw (snd (deferred_split h nw a r w))) = Inr after \<and>
      not_in after before = new_area # rest \<and>
      fst (get_int (Some a) ''y'' (snd (deferred_split h nw a r w))) = Inr ya \<and>
      fst (get_int (Some new_area) ''y'' (snd (deferred_split h nw a r w))) = Inr yn \<and>
      fst (window_region (Some (if yn \<le> ya then a else new_area))
         (snd (deferred_split h nw a r w))) = Inr rt \<and>
      fst (window_region (Some (if yn \<le> ya then new_area else a))
         (snd (deferred_split h nw a r w))) = Inr rb \<and>
      (rt = None \<or> rb = None)"
  show "fst (deferred_setup h nw w) = Inr (Some 0.05)"
    by (rule deferred_no_regions [of nw w a r before h after new_area rest ya yn rt rb])
      (use a in simp_all)
next
  assume "fst (deferred_setup h nw w) = Inr (Some 0.05)"
  then show "(\<exists>a r. fst (find_window_view3d_area nw w) = Inr (a, r) \<and> (a = None \<or> r = None)) \<or>
       (\<exists>a r. fst (find_window_view3d_area nw w) = Inr (Some a, Some r) \<and>
          (fst (deferred_split h nw a r w) = Inr False \<or>
           (\<exists>before after.
              fst (window_areas nw w) = Inr before \<and>
              fst (deferred_split h nw a r w) = Inr True \<and>
              fst (window_areas nw (snd (deferred_split h nw a r w))) = Inr after \<and>
              (not_in after before = [] \<or>
               (\<exists>new_area rest ya yn rt rb.
                  not_in after before = new_area # rest \<and>
                  fst (get_int (Some a) ''y'' (snd (deferred_split h nw a r w))) = Inr ya \<and>
                  fst (get_int (Some new_area) ''y'' (snd (deferred_split h nw a r w))) = Inr yn \<and>
                  fst (window_region (Some (if yn \<le> ya then a else new_area))
                     (snd (deferred_split h nw a r w))) = Inr rt \<and>
                  fst (window_region (Some (if yn \<le> ya then new_area else a))
                     (snd (deferred_split h nw a r w))) = Inr rb \<and>
                  (rt = None \<or> rb = None))))))"
    by (rule deferred_retry_cases)
next
  fix evs
  assume "snd (snd (deferred_setup h nw w)) = snd w @ evs \<and> \<not> list_all is_split_event evs"
  then show "fst (deferred_setup h nw w) = Inr None"
    using deferred_configured_stops by blast
next
  show "fst (post_fix h cap w) = Inr None" by (rule post_fix_result)
qed

lemma sim_find_none: "fst (find_window_view3d_area None (sim_heap, [])) = Inr (None, None)"
  by code_simp

lemma sim_find_new: "fst (find_window_view3d_area (Some 2) (sim_heap, [])) = Inr (Some 40, Some 41)"
  by code_simp

lemma sim_split_refused: "fst (deferred_split failing_host (Some 2) 40 41 (sim_heap, [])) = Inr False"
  by code_simp

lemma sim_areas_new: "fst (window_areas (Some 2) (sim_heap, [])) = Inr [40]"
  by code_simp

lemma sim_split_idle: "fst (deferred_split idle_host (Some 2) 40 41 (sim_heap, [])) = Inr True"
  by code_simp

lemma sim_areas_idle:
  "fst (window_areas (Some 2) (snd (deferred_split idle_host (Some 2) 40 41 (sim_heap, [])))) = Inr [40]"
  by code_simp

lemma sim_deferred_configures:
  "\<not> list_all is_split_event (snd (snd (deferred_setup sim_host (Some 2) (sim_heap, []))))"
  by code_simp

lemma sim_header_run:
  "fst (find_window_view3d_area (Some 2) (header_heap, [])) = Inr (Some 40, Some 41) \<and>
   fst (window_areas (Some 2) (header_heap, [])) = Inr [40] \<and>
   fst (deferred_split sim_host (Some 2) 40 41 (header_heap, [])) = Inr True \<and>
   fst (window_areas (Some 2) (snd (deferred_split sim_host (Some 2) 40 41 (header_heap, [])))) =
     Inr [40, 50] \<and>
   fst (get_int (Some 40) ''y'' (snd (deferred_split sim_host (Some 2) 40 41 (header_heap, [])))) =
     Inr 0 \<and>
   fst (get_int (Some 50) ''y'' (snd (deferred_split sim_host (Some 2) 40 41 (header_heap, [])))) =
     Inr 180 \<and>
   fst (window_region (Some 50) (snd (deferred_split sim_host (Some 2) 40 41 (header_heap, [])))) =
     Inr None \<and>
   fst (window_region (Some 40) (snd (deferred_split sim_host (Some 2) 40 41 (header_heap, [])))) =
     Inr (Some 41)"
  by code_simp

theorem timer_callbacks_reschedule_witness:
  "fst (find_window_view3d_area None (sim_heap, [])) = Inr (None, None) \<and>
   fst (deferred_setup idle_host None (sim_heap, [])) = Inr (Some 0.05) \<and>
   fst (deferred_split failing_host (Some 2) 40 41 (sim_heap, [])) = Inr False \<and>
   fst (deferred_setup failing_host (Some 2) (sim_heap, [])) = Inr (Some 0.05) \<and>
   not_in [40] [40] = [] \<and>
   fst (deferred_setup idle_host (Some 2) (sim_heap, [])) = Inr (Some 0.05) \<and>
   not_in [40, 50] [40] = [50] \<and>
   fst (window_region (Some 50) (snd (deferred_split sim_host (Some 2) 40 41 (header_heap, [])))) =
     Inr None \<and>
   fst (deferred_setup sim_host (Some 2) (header_heap, [])) = Inr (Some 0.05) \<and>
   (\<exists>a r. fst (find_window_view3d_area (Some 2) (header_heap, [])) = Inr (Some a, Some r)) \<and>
   \<not> list_all is_split_event (snd (snd (deferred_setup sim_host (Some 2) (sim_heap, [])))) \<and>
   fst (deferred_setup sim_host (Some 2) (sim_heap, [])) = Inr None"
proof -
  have n: "not_in [40] [40] = []" by (simp add: not_in_def)
  have n': "not_in [40, 50] [40] = [50]" by (simp add: not_in_def)
  have 1: "fst (deferred_setup idle_host None (sim_heap, [])) = Inr (Some 0.05)"
    using timer_callbacks_reschedule [of idle_host None "(sim_heap, [])"] sim_find_none by blast
  have 2: "fst (deferred_setup failing_host (Some 2) (sim_heap, [])) = Inr (Some 0.05)"
    using timer_callbacks_reschedule [of failing_host "Some 2" "(sim_heap, [])"]
      sim_find_new sim_split_refused by blast
  have 3: "fst (deferred_setup idle_host (Some 2) (sim_heap, [])) = Inr (Some 0.05)"
    using timer_callbacks_reschedule [of idle_host "Some 2" "(sim_heap, [])"]
      sim_find_new sim_areas_new sim_split_idle sim_areas_idle n by blast
  have "snd (snd (deferred_setup sim_host (Some 2) (sim_heap, []))) =
      snd (sim_heap, []) @ snd (snd (deferred_setup sim_host (Some 2) (sim_heap, [])))" by simp
  then have 4: "fst (deferred_setup sim_host (Some 2) (sim_heap, [])) = Inr None"
    using timer_callbacks_reschedule [of sim_host "Some 2" "(sim_heap, [])"]
      sim_deferred_configures by blast
  note t = timer_callbacks_reschedule [of sim_host "Some 2" "(header_heap, [])"]
  note c2 = conjunct2
  have 5: "fst (deferred_setup sim_host (Some 2) (header_heap, [])) = Inr (Some 0.05)"
    using t [THEN c2, THEN c2, THEN c2, THEN c2, THEN conjunct1, rule_format,
        of 40 41 "[40]" "[40, 50]" 50 "[]" 0 180 None "Some 41"] sim_header_run n'
    by simp
  have 6: "\<exists>a r. fst (find_window_view3d_area (Some 2) (header_heap, [])) = Inr (Some a, Some r)"
    using sim_header_run by blast
  show ?thesis
    using 1 2 3 4 5 6 n n' sim_find_none sim_split_refused sim_deferred_configures sim_header_run
    by simp
qed

end
